theory Spec2Isabelle
  imports Complex_Main "HOL-Library.Multiset" "HOL-Library.Char_ord" "HOL-Library.List_Lexorder"
begin

section \<open>Numbers\<close>

text \<open>
  A JavaScript number that reaches the server in a JSON request, and a value of a REAL column
  of SQLite, is an IEEE double or one of the two infinities (the JSON literal \<^verbatim>\<open>1e999\<close>
  is read as \<^verbatim>\<open>Infinity\<close>). NaN is not among them: no JSON text denotes it and SQLite stores
  it as NULL. The two zeros of IEEE are not told apart.
\<close>

datatype number = NegInf | Fin real | PosInf

instantiation number :: linorder
begin

fun less_eq_number :: "number \<Rightarrow> number \<Rightarrow> bool" where
  "less_eq_number NegInf y = True"
| "less_eq_number (Fin x) NegInf = False"
| "less_eq_number (Fin x) (Fin y) = (x \<le> y)"
| "less_eq_number (Fin x) PosInf = True"
| "less_eq_number PosInf NegInf = False"
| "less_eq_number PosInf (Fin y) = False"
| "less_eq_number PosInf PosInf = True"

definition less_number :: "number \<Rightarrow> number \<Rightarrow> bool" where
  "less_number x y = (x \<le> y \<and> \<not> y \<le> x)"

instance
proof
  fix x y z :: number
  show "(x < y) = (x \<le> y \<and> \<not> y \<le> x)" by (simp add: less_number_def)
  show "x \<le> x" by (cases x) simp_all
  show "x \<le> y \<Longrightarrow> y \<le> z \<Longrightarrow> x \<le> z" by (cases x; cases y; cases z) simp_all
  show "x \<le> y \<Longrightarrow> y \<le> x \<Longrightarrow> x = y" by (cases x; cases y) simp_all
  show "x \<le> y \<or> y \<le> x" by (cases x; cases y) auto
qed

end

text \<open>
  The finite doubles (binary64): a significand of at most 53 bits, scaled by a power of two
  between \<open>2 powi - 1074\<close> and \<open>2 powi 971\<close>. \<open>top_ulp\<close> is the distance between
  neighbouring doubles just below the largest one, \<open>max_double\<close>.
\<close>

definition doubles :: "real set" where
  "doubles = {of_int m * 2 powi e | m e. \<bar>m\<bar> < 2 ^ 53 \<and> - 1074 \<le> e \<and> e \<le> 971}"

definition top_ulp :: real where
  "top_ulp = 2 powi 971"

definition max_double :: real where
  "max_double = (2 ^ 53 - 1) * top_ulp"

text \<open>The significand of a double in normal form (53 bits, or the least exponent) is even.\<close>

definition even_mantissa :: "real \<Rightarrow> bool" where
  "even_mantissa x =
     (\<exists>m e. x = of_int m * 2 powi e \<and> even m \<and> \<bar>m\<bar> < 2 ^ 53 \<and> - 1074 \<le> e \<and> e \<le> 971 \<and>
            (2 ^ 52 \<le> \<bar>m\<bar> \<or> e = - 1074))"

text \<open>
  Rounding to nearest, ties to even: the result of every arithmetic operation on doubles is
  the exact result rounded. From half a \<open>top_ulp\<close> above \<open>max_double\<close> on, the result is
  an infinity.
\<close>

definition round_double :: "real \<Rightarrow> number" where
  "round_double x =
     (if max_double + top_ulp / 2 \<le> x then PosInf
      else if x \<le> - (max_double + top_ulp / 2) then NegInf
      else if max_double < x then Fin max_double
      else if x < - max_double then Fin (- max_double)
      else
        (let l = Max {d \<in> doubles. d \<le> x}; u = Min {d \<in> doubles. x \<le> d}
         in if x - l < u - x then Fin l
            else if u - x < x - l then Fin u
            else if even_mantissa l then Fin l else Fin u))"

text \<open>
  The sum of two numbers; \<open>None\<close> is NaN, the sum of the two infinities.
\<close>

fun ieee_add :: "number \<Rightarrow> number \<Rightarrow> number option" where
  "ieee_add (Fin x) (Fin y) = Some (round_double (x + y))"
| "ieee_add PosInf NegInf = None"
| "ieee_add NegInf PosInf = None"
| "ieee_add PosInf y = Some PosInf"
| "ieee_add x PosInf = Some PosInf"
| "ieee_add NegInf y = Some NegInf"
| "ieee_add x NegInf = Some NegInf"

text \<open>
  \<^verbatim>\<open>revenue + ?\<close> in SQLite: NULL plus anything is NULL, and a NaN result is stored as NULL.
\<close>

definition sql_add :: "number option \<Rightarrow> number \<Rightarrow> number option" where
  "sql_add r x = (case r of None \<Rightarrow> None | Some y \<Rightarrow> ieee_add y x)"

text \<open>An INTEGER column read into JavaScript: the double nearest to the integer.\<close>

definition js_int :: "int \<Rightarrow> number" where
  "js_int n = round_double (of_int n)"

section \<open>JSON\<close>

subsection \<open>The text of an array of strings\<close>

text \<open>
  The \<open>tags\<close> column holds the text \<^verbatim>\<open>JSON.stringify(args.tags)\<close> of an array of strings:
  the quoted strings, separated by commas, in brackets. In a quoted string the quote, the
  backslash and the control characters are escaped as ECMAScript's \<^verbatim>\<open>QuoteJSONString\<close>
  does; every other character stands for itself.
\<close>

abbreviation dquote :: char where "dquote \<equiv> CHR 0x22"
abbreviation bslash :: char where "bslash \<equiv> CHR 0x5C"

definition hex_digit :: "nat \<Rightarrow> char" where
  "hex_digit n = (if n < 10 then char_of (48 + n) else char_of (87 + n))"

definition escape :: "char \<Rightarrow> string" where
  "escape c =
     (if c = dquote then [bslash, dquote]
      else if c = bslash then [bslash, bslash]
      else if c = CHR 0x08 then [bslash, CHR ''b'']
      else if c = CHR 0x0C then [bslash, CHR ''f'']
      else if c = CHR 0x0A then [bslash, CHR ''n'']
      else if c = CHR 0x0D then [bslash, CHR ''r'']
      else if c = CHR 0x09 then [bslash, CHR ''t'']
      else if of_char c < (32::nat)
      then [bslash, CHR ''u'', CHR ''0'', CHR ''0'',
            hex_digit (of_char c div 16), hex_digit (of_char c mod 16)]
      else [c])"

definition quote :: "string \<Rightarrow> string" where
  "quote s = dquote # concat (map escape s) @ [dquote]"

fun join_commas :: "string list \<Rightarrow> string" where
  "join_commas [] = []"
| "join_commas [x] = x"
| "join_commas (x # y # zs) = x @ CHR '','' # join_commas (y # zs)"

definition JSON_stringify_tags :: "string list \<Rightarrow> string" where
  "JSON_stringify_tags ts = CHR ''['' # join_commas (map quote ts) @ [CHR '']'']"

text \<open>
  \<^verbatim>\<open>JSON.parse\<close> on the text of the \<open>tags\<close> column. The model reads the JSON texts that are
  arrays of strings, with white space between the tokens and the escapes of JSON in the
  strings (of the \<^verbatim>\<open>\u\<close> escapes those below U+0080, which a single character holds). For
  every other text it answers \<open>None\<close>: \<^verbatim>\<open>JSON.parse\<close> throws a SyntaxError there, or
  returns a value that is no array of strings, which the model does not follow.
\<close>

definition is_ws :: "char \<Rightarrow> bool" where
  "is_ws c = (c = CHR 0x20 \<or> c = CHR 0x09 \<or> c = CHR 0x0A \<or> c = CHR 0x0D)"

definition hex_value :: "char \<Rightarrow> nat option" where
  "hex_value c =
     (let n = (of_char c :: nat)
      in if 48 \<le> n \<and> n \<le> 57 then Some (n - 48)
         else if 97 \<le> n \<and> n \<le> 102 then Some (n - 87)
         else if 65 \<le> n \<and> n \<le> 70 then Some (n - 55)
         else None)"

definition unescape :: "char \<Rightarrow> char option" where
  "unescape e =
     (if e = dquote then Some dquote
      else if e = bslash then Some bslash
      else if e = CHR ''/'' then Some (CHR ''/'')
      else if e = CHR ''b'' then Some (CHR 0x08)
      else if e = CHR ''f'' then Some (CHR 0x0C)
      else if e = CHR ''n'' then Some (CHR 0x0A)
      else if e = CHR ''r'' then Some (CHR 0x0D)
      else if e = CHR ''t'' then Some (CHR 0x09)
      else None)"

definition unicode_escape :: "char \<Rightarrow> char \<Rightarrow> char \<Rightarrow> char \<Rightarrow> char option" where
  "unicode_escape a b h l =
     (case (hex_value a, hex_value b, hex_value h, hex_value l) of
        (Some 0, Some 0, Some x, Some y) \<Rightarrow> if x < 8 then Some (char_of (16 * x + y)) else None
      | _ \<Rightarrow> None)"

text \<open>The characters of a string after its opening quote, and what follows the closing one.\<close>

fun parse_chars :: "string \<Rightarrow> (string \<times> string) option" where
  "parse_chars [] = None"
| "parse_chars (c # cs) =
     (if c = dquote then Some ([], cs)
      else if c = bslash then
        (case cs of
           [] \<Rightarrow> None
         | e # es \<Rightarrow>
             if e = CHR ''u'' then
               (case es of
                  a # b # h # l # rest \<Rightarrow>
                    (case unicode_escape a b h l of
                       None \<Rightarrow> None
                     | Some u \<Rightarrow> map_option (apfst ((#) u)) (parse_chars rest))
                | _ \<Rightarrow> None)
             else
               (case unescape e of
                  None \<Rightarrow> None
                | Some u \<Rightarrow> map_option (apfst ((#) u)) (parse_chars es)))
      else if of_char c < (32::nat) then None
      else map_option (apfst ((#) c)) (parse_chars cs))"

text \<open>The strings of an array from its first string on, up to the closing bracket.\<close>

function parse_items :: "string \<Rightarrow> string list option" where
  "parse_items s =
     (case s of
        [] \<Rightarrow> None
      | c # r \<Rightarrow>
          if c \<noteq> dquote then None
          else
            (case parse_chars r of
               None \<Rightarrow> None
             | Some (t, r') \<Rightarrow>
                 (case dropWhile is_ws r' of
                    [] \<Rightarrow> None
                  | d # r'' \<Rightarrow>
                      if d = CHR '','' then map_option ((#) t) (parse_items (dropWhile is_ws r''))
                      else if d = CHR '']'' then (if list_all is_ws r'' then Some [t] else None)
                      else None)))"
  by pat_completeness auto
termination
proof (relation "measure length", goal_cases)
  case 1
  show ?case by simp
next
  case (2 s c r x t r' d r'')
  have shorter: "length w < length u" if "parse_chars u = Some (v, w)" for u v w
    using that
  proof (induction "length u" arbitrary: u v w rule: less_induct)
    case less
    have ih: "parse_chars u' = Some (v', w') \<Longrightarrow> length u' < length u \<longrightarrow> length w' < length u'"
      for u' v' w'
      using less.hyps [of u' v' w'] by simp
    show ?case
    proof (cases u)
      case Nil
      with less.prems show ?thesis by simp
    next
      case (Cons a as)
      with less.prems show ?thesis
        by (auto split: if_splits list.splits option.splits dest!: ih)
    qed
  qed
  from 2 have "parse_chars r = Some (t, r')" by simp
  then have "length r' < length r" by (rule shorter)
  moreover have "length (d # r'') \<le> length r'"
    using length_dropWhile_le [of is_ws r'] 2 by simp
  moreover have "length (dropWhile is_ws r'') \<le> length r''"
    by (rule length_dropWhile_le)
  ultimately show ?case
    using 2 by simp
qed

declare parse_items.simps [simp del]

definition JSON_parse_tags :: "string \<Rightarrow> string list option" where
  "JSON_parse_tags s =
     (case dropWhile is_ws s of
        [] \<Rightarrow> None
      | c # r \<Rightarrow>
          if c \<noteq> CHR ''['' then None
          else
            (case dropWhile is_ws r of
               [] \<Rightarrow> None
             | d # r' \<Rightarrow>
                 if d = CHR '']'' then (if list_all is_ws r' then Some [] else None)
                 else parse_items (d # r')))"

subsection \<open>Values and documents\<close>

text \<open>
  The values a handler builds and \<^verbatim>\<open>JSON.parse\<close> returns. A JSON document is kept as the
  tree its text spells, not as characters: \<^verbatim>\<open>JSON.stringify\<close> writes a finite number so that
  \<^verbatim>\<open>JSON.parse\<close> reads the same double back, and writes \<^verbatim>\<open>null\<close> for an infinity
  (ECMAScript, \<^verbatim>\<open>SerializeJSONProperty\<close>); the indentation is white space.
\<close>

datatype js = JNull | JNumber number | JString string | JArray "js list"
  | JObject "(string \<times> js) list"

datatype json = TNull | TNumber real | TString string | TArray "json list"
  | TObject "(string \<times> json) list"

primrec JSON_stringify :: "js \<Rightarrow> json" where
  "JSON_stringify JNull = TNull"
| "JSON_stringify (JNumber n) = (case n of Fin x \<Rightarrow> TNumber x | NegInf \<Rightarrow> TNull | PosInf \<Rightarrow> TNull)"
| "JSON_stringify (JString s) = TString s"
| "JSON_stringify (JArray xs) = TArray (map JSON_stringify xs)"
| "JSON_stringify (JObject ms) = TObject (map (map_prod id JSON_stringify) ms)"

primrec JSON_parse :: "json \<Rightarrow> js" where
  "JSON_parse TNull = JNull"
| "JSON_parse (TNumber x) = JNumber (Fin x)"
| "JSON_parse (TString s) = JString s"
| "JSON_parse (TArray xs) = JArray (map JSON_parse xs)"
| "JSON_parse (TObject ms) = JObject (map (map_prod id JSON_parse) ms)"

section \<open>The datastore of src/index.ts\<close>

text \<open>
  The server keeps three SQLite tables (\<^verbatim>\<open>db.exec\<close>, lines 67-110). A table is the list of
  its rows in insertion order. Columns keep the names of the schema; \<^verbatim>\<open>id\<close> is written
  \<open>row_id\<close>, \<open>click_id\<close> and \<open>conv_id\<close>, and the columns two tables share carry the table's
  prefix. A nullable column is an \<open>option\<close>; \<open>revenue\<close> is nullable, and becomes NULL when
  its sum is NaN. The counters \<open>clicks\<close> and \<open>conversions\<close> are integers; they start at 0
  and no statement of the server stores NULL in them. The \<open>tags\<close> column is TEXT.
\<close>

record link_row =
  row_id :: string
  program :: string
  product :: string
  link :: string
  commission_rate :: number
  category :: string
  tags :: "string option"
  expiry :: "string option"
  created_at :: string
  updated_at :: string
  clicks :: int
  conversions :: int
  revenue :: "number option"
  row_notes :: "string option"

record click_row =
  click_id :: string
  click_link_id :: string
  click_timestamp :: string
  source :: "string option"
  user_id :: "string option"

record conversion_row =
  conv_id :: string
  conv_link_id :: string
  conv_timestamp :: string
  amount :: number
  order_id :: "string option"

text \<open>
  \<open>foreign_keys\<close> is the connection's \<^verbatim>\<open>foreign_keys\<close> pragma: whether the clauses
  \<^verbatim>\<open>FOREIGN KEY(link_id) REFERENCES affiliate_links(id)\<close> of lines 96 and 105 are enforced.
  The source never sets the pragma, so its value is the default of the SQLite build the
  process loads (on in the build that better-sqlite3 bundles, off in a stock build); it is a
  parameter of the model.
\<close>

record db =
  affiliate_links :: "link_row list"
  link_clicks :: "click_row list"
  link_conversions :: "conversion_row list"
  foreign_keys :: bool

text \<open>
  What a statement or a call of the JavaScript library can throw. \<open>Constraint\<close> carries the
  text of SQLite's message after \<^verbatim>\<open>UNIQUE constraint failed: \<close>; \<open>DatatypeMismatch\<close> is
  SQLite's \<^verbatim>\<open>datatype mismatch\<close>; \<open>StorageError\<close> stands for every failure of the datastore
  itself (I/O error, database locked, disk full); \<open>SyntaxError\<close> is what \<^verbatim>\<open>JSON.parse\<close>
  throws.
\<close>

datatype error = Constraint string | ForeignKey | DatatypeMismatch | StorageError | SyntaxError

text \<open>
  The handler reads the clock and the random generator: \<^verbatim>\<open>generateId()\<close> and
  \<^verbatim>\<open>new Date().toISOString()\<close>. Both are inputs of a call. \<open>fault\<close> names the statement of
  the call (counted from 0) at which the datastore fails, if any.
\<close>

record env =
  gen_id :: string
  now :: string
  fault :: "nat option"

subsection \<open>Arguments and results of the tools\<close>

text \<open>
  The arguments have the types of the \<^verbatim>\<open>inputSchema\<close> of each tool (lines 178-361); the
  handler itself validates nothing.
\<close>

record store_args =
  s_program :: string
  s_product :: string
  s_link :: string
  s_commissionRate :: number
  s_category :: string
  s_tags :: "string list option"
  s_expiry :: "string option"
  s_notes :: "string option"

record list_args =
  f_category :: "string option"
  f_program :: "string option"
  f_minCommission :: "number option"
  f_maxCommission :: "number option"
  f_limit :: "number option"

record click_args =
  k_linkId :: string
  k_source :: "string option"
  k_userId :: "string option"

record conversion_args =
  v_linkId :: string
  v_amount :: number
  v_orderId :: "string option"

text \<open>The object \<^verbatim>\<open>getAffiliateLink\<close> and \<^verbatim>\<open>getAllAffiliateLinks\<close> build (type AffiliateLink).\<close>

record AffiliateLink =
  al_id :: string
  al_program :: string
  al_product :: string
  al_link :: string
  al_commissionRate :: number
  al_category :: string
  al_tags :: js
  al_expiry :: "string option"
  al_createdAt :: string
  al_updatedAt :: string
  al_clicks :: int
  al_conversions :: int
  al_revenue :: "number option"
  al_notes :: "string option"



record stats =
  st_linkId :: string
  st_product :: string
  st_program :: string
  st_clicks :: nat
  st_conversions :: nat
  st_revenue :: "number option"
  st_conversionRate :: string

text \<open>
  \<^verbatim>\<open>get_stats\<close> returns its statistics, or the payload \<^verbatim>\<open>{error: "Link not found"}\<close>
  (lines 520-529, not flagged \<^verbatim>\<open>isError\<close>).
\<close>

datatype stats_result = Stats stats | LinkNotFound

subsection \<open>Statements\<close>

text \<open>\<^verbatim>\<open>x || null\<close> on an optional string: the empty string is falsy.\<close>

definition or_null :: "string option \<Rightarrow> string option" where
  "or_null x = (case x of None \<Rightarrow> None | Some s \<Rightarrow> if s = [] then None else Some s)"

text \<open>
  \<^verbatim>\<open>stmt.run\<close> outside a transaction: the statement either throws and changes nothing, or
  is committed when it returns. The source opens no transaction anywhere.
\<close>

definition run :: "bool \<Rightarrow> (db \<Rightarrow> error + db) \<Rightarrow> db \<Rightarrow> error + db" where
  "run faulty stmt d = (if faulty then Inl StorageError else stmt d)"

text \<open>
  \<^verbatim>\<open>INSERT INTO affiliate_links\<close>: \<open>link\<close> is UNIQUE, \<open>id\<close> is the primary key. SQLite
  reports the first index that rejects the row and tests the index of \<open>link\<close> before the
  one of \<open>id\<close>.
\<close>

definition insert_affiliate_link :: "link_row \<Rightarrow> db \<Rightarrow> error + db" where
  "insert_affiliate_link r d =
     (if link r \<in> set (map link (affiliate_links d))
      then Inl (Constraint ''affiliate_links.link'')
      else if row_id r \<in> set (map row_id (affiliate_links d))
      then Inl (Constraint ''affiliate_links.id'')
      else Inr (d\<lparr>affiliate_links := affiliate_links d @ [r]\<rparr>))"

text \<open>\<^verbatim>\<open>INSERT INTO link_clicks\<close>: primary key, then the foreign key when it is enforced.\<close>

definition insert_click :: "click_row \<Rightarrow> db \<Rightarrow> error + db" where
  "insert_click c d =
     (if click_id c \<in> set (map click_id (link_clicks d))
      then Inl (Constraint ''link_clicks.id'')
      else if foreign_keys d \<and> click_link_id c \<notin> set (map row_id (affiliate_links d))
      then Inl ForeignKey
      else Inr (d\<lparr>link_clicks := link_clicks d @ [c]\<rparr>))"

definition insert_conversion :: "conversion_row \<Rightarrow> db \<Rightarrow> error + db" where
  "insert_conversion c d =
     (if conv_id c \<in> set (map conv_id (link_conversions d))
      then Inl (Constraint ''link_conversions.id'')
      else if foreign_keys d \<and> conv_link_id c \<notin> set (map row_id (affiliate_links d))
      then Inl ForeignKey
      else Inr (d\<lparr>link_conversions := link_conversions d @ [c]\<rparr>))"

text \<open>\<^verbatim>\<open>UPDATE affiliate_links SET clicks = clicks + 1 WHERE id = ?\<close>\<close>

definition bump_clicks :: "string \<Rightarrow> link_row \<Rightarrow> link_row" where
  "bump_clicks i r = (if row_id r = i then r\<lparr>clicks := clicks r + 1\<rparr> else r)"

definition update_clicks :: "string \<Rightarrow> db \<Rightarrow> error + db" where
  "update_clicks i d = Inr (d\<lparr>affiliate_links := map (bump_clicks i) (affiliate_links d)\<rparr>)"

text \<open>\<^verbatim>\<open>UPDATE affiliate_links SET conversions = conversions + 1, revenue = revenue + ? WHERE id = ?\<close>\<close>

definition bump_conversions :: "number \<Rightarrow> string \<Rightarrow> link_row \<Rightarrow> link_row" where
  "bump_conversions x i r =
     (if row_id r = i
      then r\<lparr>conversions := conversions r + 1, revenue := sql_add (revenue r) x\<rparr>
      else r)"

definition update_conversions :: "number \<Rightarrow> string \<Rightarrow> db \<Rightarrow> error + db" where
  "update_conversions x i d =
     Inr (d\<lparr>affiliate_links := map (bump_conversions x i) (affiliate_links d)\<rparr>)"

text \<open>
  \<^verbatim>\<open>ORDER BY key DESC\<close>. SQL leaves the order of rows with equal keys open; the model keeps
  them in table order.
\<close>

fun place_desc :: "('a \<Rightarrow> 'k::linorder) \<Rightarrow> 'a \<Rightarrow> 'a list \<Rightarrow> 'a list" where
  "place_desc k x [] = [x]"
| "place_desc k x (y # ys) = (if k y \<le> k x then x # y # ys else y # place_desc k x ys)"

definition order_by_desc :: "('a \<Rightarrow> 'k::linorder) \<Rightarrow> 'a list \<Rightarrow> 'a list" where
  "order_by_desc k xs = foldr (place_desc k) xs []"



subsection \<open>Helper functions (lines 118-160)\<close>

text \<open>
  \<^verbatim>\<open>row.tags ? JSON.parse(row.tags) : []\<close>: NULL and the empty text are falsy.
\<close>

definition read_tags :: "string option \<Rightarrow> error + js" where
  "read_tags x =
     (case x of
        None \<Rightarrow> Inr (JArray [])
      | Some t \<Rightarrow>
          if t = [] then Inr (JArray [])
          else (case JSON_parse_tags t of
                  None \<Rightarrow> Inl SyntaxError
                | Some ts \<Rightarrow> Inr (JArray (map JString ts))))"

definition to_link :: "link_row \<Rightarrow> error + AffiliateLink" where
  "to_link r =
     (case read_tags (tags r) of
        Inl err \<Rightarrow> Inl err
      | Inr t \<Rightarrow>
          Inr \<lparr>al_id = row_id r, al_program = program r, al_product = product r,
               al_link = link r, al_commissionRate = commission_rate r,
               al_category = category r, al_tags = t,
               al_expiry = expiry r, al_createdAt = created_at r, al_updatedAt = updated_at r,
               al_clicks = clicks r, al_conversions = conversions r, al_revenue = revenue r,
               al_notes = row_notes r\<rparr>)"

definition getAffiliateLink :: "db \<Rightarrow> string \<Rightarrow> error + AffiliateLink option" where
  "getAffiliateLink d i =
     (case find (\<lambda>r. row_id r = i) (affiliate_links d) of
        None \<Rightarrow> Inr None
      | Some r \<Rightarrow> (case to_link r of Inl err \<Rightarrow> Inl err | Inr l \<Rightarrow> Inr (Some l)))"

text \<open>\<^verbatim>\<open>rows.map(...)\<close>: the first row whose tags do not parse ends the call.\<close>

fun to_links :: "link_row list \<Rightarrow> error + AffiliateLink list" where
  "to_links [] = Inr []"
| "to_links (r # rs) =
     (case to_link r of
        Inl err \<Rightarrow> Inl err
      | Inr l \<Rightarrow> (case to_links rs of Inl err \<Rightarrow> Inl err | Inr ls \<Rightarrow> Inr (l # ls)))"

definition getAllAffiliateLinks :: "db \<Rightarrow> error + AffiliateLink list" where
  "getAllAffiliateLinks d = to_links (order_by_desc created_at (affiliate_links d))"

section \<open>The tools (the \<^verbatim>\<open>tools/call\<close> handler, lines 363-672)\<close>

text \<open>
  A handler takes the database and returns the database it leaves behind together with its
  payload: \<open>Inr\<close> the payload of the \<^verbatim>\<open>return\<close>, \<open>Inl\<close> the error the \<^verbatim>\<open>catch\<close> block
  (lines 659-671) reports with \<^verbatim>\<open>isError: true\<close>. The handlers that only read return the
  payload alone. A payload is kept as the object handed to \<^verbatim>\<open>JSON.stringify\<close>; for the json
  export, whose text the specification parses back, the document is kept. The tools
  \<^verbatim>\<open>get_best_link\<close> and \<^verbatim>\<open>search_links\<close> and the csv branch of \<^verbatim>\<open>export_links\<close> only
  read and are not modelled.
\<close>

subsection \<open>store_affiliate_link (lines 368-400)\<close>

text \<open>
  The column list of the INSERT has no \<open>notes\<close>, \<open>clicks\<close>, \<open>conversions\<close> or \<open>revenue\<close>:
  the row gets NULL and the defaults 0. \<^verbatim>\<open>args.tags ? JSON.stringify(args.tags) : null\<close>: an
  array, also the empty one, is truthy.
\<close>

definition new_link_row :: "env \<Rightarrow> store_args \<Rightarrow> link_row" where
  "new_link_row e a =
     \<lparr>row_id = gen_id e, program = s_program a, product = s_product a, link = s_link a,
      commission_rate = s_commissionRate a, category = s_category a,
      tags = map_option JSON_stringify_tags (s_tags a), expiry = or_null (s_expiry a),
      created_at = now e, updated_at = now e,
      clicks = 0, conversions = 0, revenue = Some (Fin 0), row_notes = None\<rparr>"

definition store_affiliate_link :: "env \<Rightarrow> store_args \<Rightarrow> db \<Rightarrow> db \<times> (error + string)" where
  "store_affiliate_link e a d =
     (case run (fault e = Some 0) (insert_affiliate_link (new_link_row e a)) d of
        Inl err \<Rightarrow> (d, Inl err)
      | Inr d1 \<Rightarrow> (d1, Inr (gen_id e)))"

subsection \<open>get_affiliate_links (lines 402-451)\<close>






subsection \<open>get_stats (lines 518-553)\<close>

text \<open>
  \<^verbatim>\<open>((conversions / clicks) * 100).toFixed(2)\<close> for two counts of rows, which are doubles:
  the quotient is rounded, its product with 100 is rounded, and \<^verbatim>\<open>toFixed(2)\<close> writes the
  decimal digits of the double it gets, rounded to hundredths with halves upwards. The
  number is never negative here.
\<close>

fun digits_of :: "nat \<Rightarrow> string" where
  "digits_of n =
     (if n < 10 then [char_of (48 + n)]
      else digits_of (n div 10) @ [char_of (48 + n mod 10)])"

declare digits_of.simps [simp del]

definition toFixed2 :: "number \<Rightarrow> string" where
  "toFixed2 n =
     (case n of
        Fin x \<Rightarrow>
          (let h = nat \<lfloor>x * 100 + 1 / 2\<rfloor>
           in digits_of (h div 100) @ ''.'' @ digits_of (h mod 100 div 10) @ digits_of (h mod 10))
      | PosInf \<Rightarrow> ''Infinity''
      | NegInf \<Rightarrow> ''-Infinity'')"

definition percentage :: "nat \<Rightarrow> nat \<Rightarrow> number" where
  "percentage n_conversions n_clicks =
     (case round_double (real n_conversions / real n_clicks) of
        Fin q \<Rightarrow> round_double (q * 100)
      | NegInf \<Rightarrow> NegInf
      | PosInf \<Rightarrow> PosInf)"

text \<open>\<^verbatim>\<open>clicks > 0 ? ((conversions / clicks) * 100).toFixed(2) + "%" : "0%"\<close>\<close>

definition conversionRate :: "nat \<Rightarrow> nat \<Rightarrow> string" where
  "conversionRate n_conversions n_clicks =
     (if n_clicks > 0 then toFixed2 (percentage n_conversions n_clicks) @ ''%'' else ''0%'')"

text \<open>\<^verbatim>\<open>SELECT COUNT(*) as count FROM link_clicks WHERE link_id = ?\<close>, and for conversions.\<close>

definition count_clicks :: "db \<Rightarrow> string \<Rightarrow> nat" where
  "count_clicks d i = length (filter (\<lambda>c. click_link_id c = i) (link_clicks d))"

definition count_conversions :: "db \<Rightarrow> string \<Rightarrow> nat" where
  "count_conversions d i = length (filter (\<lambda>c. conv_link_id c = i) (link_conversions d))"

definition get_stats :: "string \<Rightarrow> db \<Rightarrow> error + stats_result" where
  "get_stats linkId d =
     (case getAffiliateLink d linkId of
        Inl err \<Rightarrow> Inl err
      | Inr None \<Rightarrow> Inr LinkNotFound
      | Inr (Some l) \<Rightarrow>
          (let n_clicks = count_clicks d linkId;
               n_conversions = count_conversions d linkId
           in Inr (Stats \<lparr>st_linkId = linkId, st_product = al_product l,
                          st_program = al_program l,
                          st_clicks = n_clicks, st_conversions = n_conversions,
                          st_revenue = al_revenue l,
                          st_conversionRate = conversionRate n_conversions n_clicks\<rparr>)))"

subsection \<open>track_click (lines 555-573) and track_conversion (lines 575-604)\<close>

text \<open>
  Two statements, each run on its own: when the second throws, the first is already
  committed and the handler's \<^verbatim>\<open>catch\<close> reports the error over the database the first left.
\<close>

definition new_click_row :: "env \<Rightarrow> click_args \<Rightarrow> click_row" where
  "new_click_row e a =
     \<lparr>click_id = gen_id e, click_link_id = k_linkId a, click_timestamp = now e,
      source = or_null (k_source a), user_id = or_null (k_userId a)\<rparr>"

definition track_click :: "env \<Rightarrow> click_args \<Rightarrow> db \<Rightarrow> db \<times> (error + unit)" where
  "track_click e a d =
     (case run (fault e = Some 0) (insert_click (new_click_row e a)) d of
        Inl err \<Rightarrow> (d, Inl err)
      | Inr d1 \<Rightarrow>
          (case run (fault e = Some 1) (update_clicks (k_linkId a)) d1 of
             Inl err \<Rightarrow> (d1, Inl err)
           | Inr d2 \<Rightarrow> (d2, Inr ())))"

definition new_conversion_row :: "env \<Rightarrow> conversion_args \<Rightarrow> conversion_row" where
  "new_conversion_row e a =
     \<lparr>conv_id = gen_id e, conv_link_id = v_linkId a, conv_timestamp = now e,
      amount = v_amount a, order_id = or_null (v_orderId a)\<rparr>"

definition track_conversion :: "env \<Rightarrow> conversion_args \<Rightarrow> db \<Rightarrow> db \<times> (error + unit)" where
  "track_conversion e a d =
     (case run (fault e = Some 0) (insert_conversion (new_conversion_row e a)) d of
        Inl err \<Rightarrow> (d, Inl err)
      | Inr d1 \<Rightarrow>
          (case run (fault e = Some 1) (update_conversions (v_amount a) (v_linkId a)) d1 of
             Inl err \<Rightarrow> (d1, Inl err)
           | Inr d2 \<Rightarrow> (d2, Inr ())))"

subsection \<open>export_links, format json (lines 606-645)\<close>

text \<open>The object \<^verbatim>\<open>JSON.stringify\<close> gets for a link: its fields in the order of line 144.\<close>

definition nullable :: "string option \<Rightarrow> js" where
  "nullable x = (case x of None \<Rightarrow> JNull | Some s \<Rightarrow> JString s)"

definition link_object :: "AffiliateLink \<Rightarrow> js" where
  "link_object l =
     JObject
       [(''id'', JString (al_id l)),
        (''program'', JString (al_program l)),
        (''product'', JString (al_product l)),
        (''link'', JString (al_link l)),
        (''commissionRate'', JNumber (al_commissionRate l)),
        (''category'', JString (al_category l)),
        (''tags'', al_tags l),
        (''expiry'', nullable (al_expiry l)),
        (''createdAt'', JString (al_createdAt l)),
        (''updatedAt'', JString (al_updatedAt l)),
        (''clicks'', JNumber (js_int (al_clicks l))),
        (''conversions'', JNumber (js_int (al_conversions l))),
        (''revenue'', (case al_revenue l of None \<Rightarrow> JNull | Some x \<Rightarrow> JNumber x)),
        (''notes'', nullable (al_notes l))]"

text \<open>The payload is the document \<^verbatim>\<open>JSON.stringify(links, null, 2)\<close>.\<close>

definition export_links_json :: "db \<Rightarrow> error + json" where
  "export_links_json d =
     (case getAllAffiliateLinks d of
        Inl err \<Rightarrow> Inl err
      | Inr links \<Rightarrow> Inr (JSON_stringify (JArray (map link_object links))))"

subsection \<open>The dispatch and sequences of calls\<close>

datatype request =
    Store_affiliate_link store_args
  | Get_affiliate_links list_args
  | Get_stats string
  | Track_click click_args
  | Track_conversion conversion_args
  | Export_links_json

text \<open>The database a call leaves behind.\<close>

fun handle :: "env \<Rightarrow> request \<Rightarrow> db \<Rightarrow> db" where
  "handle e (Store_affiliate_link a) d = fst (store_affiliate_link e a d)"
| "handle e (Track_click a) d = fst (track_click e a d)"
| "handle e (Track_conversion a) d = fst (track_conversion e a d)"
| "handle e (Get_affiliate_links a) d = d"
| "handle e (Get_stats i) d = d"
| "handle e Export_links_json d = d"

fun handle_all :: "(env \<times> request) list \<Rightarrow> db \<Rightarrow> db" where
  "handle_all [] d = d"
| "handle_all ((e, q) # cs) d = handle_all cs (handle e q d)"

section \<open>What the specification speaks of\<close>

text \<open>
  The schema's foreign keys as a property of a state: every click row and every conversion
  row references a row of \<open>affiliate_links\<close>.
\<close>

definition references_ok :: "db \<Rightarrow> bool" where
  "references_ok d =
     (list_all (\<lambda>c. click_link_id c \<in> set (map row_id (affiliate_links d))) (link_clicks d) \<and>
      list_all (\<lambda>c. conv_link_id c \<in> set (map row_id (affiliate_links d))) (link_conversions d))"

text \<open>
  The number of \<^verbatim>\<open>track_click\<close> calls for the link \<open>i\<close> that succeed while a sequence of
  calls runs from the state \<open>d\<close>.
\<close>

fun clicks_tracked :: "string \<Rightarrow> (env \<times> request) list \<Rightarrow> db \<Rightarrow> nat" where
  "clicks_tracked i [] d = 0"
| "clicks_tracked i ((e, q) # cs) d =
     (case q of
        Track_click a \<Rightarrow> if k_linkId a = i \<and> \<not> isl (snd (track_click e a d)) then 1 else 0
      | _ \<Rightarrow> 0)
     + clicks_tracked i cs (handle e q d)"

text \<open>
  The number of \<^verbatim>\<open>track_click\<close> calls for the link \<open>i\<close> in the sequence that fail and
  leave their click row behind.
\<close>

fun clicks_torn :: "string \<Rightarrow> (env \<times> request) list \<Rightarrow> db \<Rightarrow> nat" where
  "clicks_torn i [] d = 0"
| "clicks_torn i ((e, q) # cs) d =
     (case q of
        Track_click a \<Rightarrow>
          if k_linkId a = i \<and> isl (snd (track_click e a d))
             \<and> link_clicks (fst (track_click e a d)) \<noteq> link_clicks d
          then 1 else 0
      | _ \<Rightarrow> 0)
     + clicks_torn i cs (handle e q d)"

text \<open>The specification's \<open>DuplicateLink\<close>: the unique constraint on the link URL is violated.\<close>

definition DuplicateLink :: error where
  "DuplicateLink = Constraint ''affiliate_links.link''"

text \<open>
  The revenue of a link as the event log has it: the amounts of its conversions, added up
  from 0 in the order of the log.
\<close>

definition sum_amounts :: "db \<Rightarrow> string \<Rightarrow> number option" where
  "sum_amounts d i =
     foldl sql_add (Some (Fin 0)) (map amount (filter (\<lambda>c. conv_link_id c = i) (link_conversions d)))"



text \<open>The export parsed back, and the field of an object.\<close>

definition parsed_export :: "db \<Rightarrow> error + js" where
  "parsed_export d = (case export_links_json d of Inl err \<Rightarrow> Inl err | Inr doc \<Rightarrow> Inr (JSON_parse doc))"

definition js_field :: "string \<Rightarrow> js \<Rightarrow> js option" where
  "js_field k v = (case v of JObject ms \<Rightarrow> map_of ms k | _ \<Rightarrow> None)"

text \<open>
  An object of the parsed export reproduces a row: it has the fourteen fields of a link,
  each with the value of its column, a NULL as \<^verbatim>\<open>null\<close>; the tags are the array of strings
  whose JSON text the column holds, the empty array for a row without tags. The one
  exception is a REAL column that holds an infinity, which comes back as \<^verbatim>\<open>null\<close>.
\<close>

definition real_field :: "number \<Rightarrow> js" where
  "real_field x = (case x of Fin v \<Rightarrow> JNumber (Fin v) | NegInf \<Rightarrow> JNull | PosInf \<Rightarrow> JNull)"

definition reproduces :: "link_row \<Rightarrow> js \<Rightarrow> bool" where
  "reproduces r obj =
     (\<exists>ts. tags r = map_option JSON_stringify_tags ts \<and>
        obj = JObject
          [(''id'', JString (row_id r)),
           (''program'', JString (program r)),
           (''product'', JString (product r)),
           (''link'', JString (link r)),
           (''commissionRate'', real_field (commission_rate r)),
           (''category'', JString (category r)),
           (''tags'', JArray (map JString (case ts of None \<Rightarrow> [] | Some xs \<Rightarrow> xs))),
           (''expiry'', nullable (expiry r)),
           (''createdAt'', JString (created_at r)),
           (''updatedAt'', JString (updated_at r)),
           (''clicks'', JNumber (Fin (of_int (clicks r)))),
           (''conversions'', JNumber (Fin (of_int (conversions r)))),
           (''revenue'', (case revenue r of None \<Rightarrow> JNull | Some x \<Rightarrow> real_field x)),
           (''notes'', nullable (row_notes r))])"


section \<open>Example calls and states\<close>

definition no_fault :: "string \<Rightarrow> string \<Rightarrow> env" where
  "no_fault i t = \<lparr>gen_id = i, now = t, fault = None\<rparr>"

definition fault_at :: "nat \<Rightarrow> string \<Rightarrow> string \<Rightarrow> env" where
  "fault_at n i t = \<lparr>gen_id = i, now = t, fault = Some n\<rparr>"

definition empty_db :: "bool \<Rightarrow> db" where
  "empty_db fk = \<lparr>affiliate_links = [], link_clicks = [], link_conversions = [], foreign_keys = fk\<rparr>"

definition desk :: store_args where
  "desk = \<lparr>s_program = ''Amazon'', s_product = ''Desk'', s_link = ''https://a.example/desk'',
            s_commissionRate = Fin (9 / 2), s_category = ''office'', s_tags = None,
            s_expiry = None, s_notes = Some ''sturdy''\<rparr>"

definition item :: "string \<Rightarrow> string \<Rightarrow> number \<Rightarrow> store_args" where
  "item name cat rate =
     \<lparr>s_program = ''Amazon'', s_product = name, s_link = ''https://a.example/'' @ name,
      s_commissionRate = rate, s_category = cat, s_tags = Some [''wfh''],
      s_expiry = None, s_notes = None\<rparr>"

definition click_on :: "string \<Rightarrow> click_args" where
  "click_on i = \<lparr>k_linkId = i, k_source = Some ''blog'', k_userId = None\<rparr>"

definition sale_on :: "string \<Rightarrow> number \<Rightarrow> conversion_args" where
  "sale_on i x = \<lparr>v_linkId = i, v_amount = x, v_orderId = None\<rparr>"


text \<open>The database with the one link \<open>aff_1\<close>, stored without tags.\<close>

definition desk_db :: "bool \<Rightarrow> db" where
  "desk_db fk = fst (store_affiliate_link (no_fault ''aff_1'' ''t1'') desk (empty_db fk))"

text \<open>
  The state \<open>desk_db\<close> is left in by a \<^verbatim>\<open>track_conversion\<close> of 10 whose UPDATE fails: the
  conversion row is there, the counters of the link are not touched.
\<close>

definition unpaid_db :: db where
  "unpaid_db =
     fst (track_conversion (fault_at 1 ''v1'' ''t2'') (sale_on ''aff_1'' (Fin 10)) (desk_db True))"

text \<open>Four links, three of them tagged.\<close>

definition shop_db :: db where
  "shop_db =
     \<lparr>affiliate_links =
        [new_link_row (no_fault ''aff_1'' ''t1'') desk,
         new_link_row (no_fault ''aff_2'' ''t2'') (item ''Mouse'' ''tech'' (Fin 3)),
         new_link_row (no_fault ''aff_3'' ''t3'') (item ''Monitor'' ''tech'' (Fin 6)),
         new_link_row (no_fault ''aff_4'' ''t4'') (item ''Laptop'' ''tech'' (Fin 8))],
      link_clicks = [], link_conversions = [], foreign_keys = True\<rparr>"

text \<open>
  One link, stored with the commission rate \<^verbatim>\<open>1e999\<close>, which JavaScript reads as
  \<^verbatim>\<open>Infinity\<close>.
\<close>

definition boundless_db :: db where
  "boundless_db =
     fst (store_affiliate_link (no_fault ''aff_1'' ''t1'') (item ''Crown'' ''luxury'' PosInf)
            (empty_db True))"

section \<open>Lemmas\<close>

subsection \<open>Doubles and rounding\<close>

lemma finite_doubles: "finite doubles"
proof -
  have "doubles \<subseteq> (\<lambda>(m, e). of_int m * 2 powi e) ` ({- (2 ^ 53) .. 2 ^ 53} \<times> {- 1074 .. 971})"
    by (auto simp: doubles_def image_iff) force
  then show ?thesis
    by (rule finite_subset) simp
qed

lemma top_ulp_pos: "0 < top_ulp"
  unfolding top_ulp_def by (rule zero_less_power_int) simp

lemma powi_le_top_ulp: "e \<le> 971 \<Longrightarrow> (2::real) powi e \<le> top_ulp"
  unfolding top_ulp_def by (rule power_int_increasing) simp_all

lemma max_double_in: "max_double \<in> doubles"
  unfolding doubles_def max_double_def top_ulp_def
  by (rule CollectI, rule exI [of _ "2 ^ 53 - 1"], rule exI [of _ 971])
     (simp del: power_int_numeral)

lemma doubles_uminus: "x \<in> doubles \<Longrightarrow> - x \<in> doubles"
  unfolding doubles_def
  apply clarsimp
  subgoal for m e by (rule exI [of _ "- m"], rule exI [of _ e]) simp
  done

lemma doubles_le_max:
  assumes "x \<in> doubles"
  shows "x \<le> max_double"
proof -
  from assms obtain m e where x: "x = of_int m * 2 powi e"
    and m: "\<bar>m\<bar> < 2 ^ 53" and e: "e \<le> 971" by (auto simp: doubles_def)
  note t = top_ulp_pos
  have p: "(2::real) powi e \<le> top_ulp" "0 < (2::real) powi e"
    using e by (auto intro: powi_le_top_ulp)
  show ?thesis
  proof (cases "m \<le> 0")
    case True
    then have "of_int m * (2::real) powi e \<le> 0"
      using p(2) by (simp add: mult_le_0_iff)
    also have "0 \<le> (2 ^ 53 - 1) * top_ulp" using t by simp
    finally show ?thesis by (simp add: x max_double_def)
  next
    case False
    from m have "m \<le> 2 ^ 53 - 1" by simp
    then have "(of_int m :: real) \<le> of_int (2 ^ 53 - 1)" by (simp only: of_int_le_iff)
    then have "(of_int m :: real) \<le> 2 ^ 53 - 1" by simp
    with p False have "of_int m * 2 powi e \<le> (2 ^ 53 - 1) * top_ulp"
      by (intro mult_mono) simp_all
    then show ?thesis by (simp add: x max_double_def)
  qed
qed

lemma doubles_ge_min: "x \<in> doubles \<Longrightarrow> - max_double \<le> x"
  using doubles_le_max [OF doubles_uminus, of x] by simp

lemma zero_in_doubles: "0 \<in> doubles"
  unfolding doubles_def by (rule CollectI, rule exI [of _ 0], rule exI [of _ 0]) simp

lemma int_in_doubles: "\<bar>n\<bar> < 2 ^ 53 \<Longrightarrow> of_int n \<in> doubles"
  unfolding doubles_def by (rule CollectI, rule exI [of _ n], rule exI [of _ 0]) simp

lemma half_in_doubles: "\<bar>n\<bar> < 2 ^ 53 \<Longrightarrow> of_int n / 2 \<in> doubles"
  unfolding doubles_def by (rule CollectI, rule exI [of _ n], rule exI [of _ "- 1"]) simp

lemma Max_below:
  assumes "- max_double \<le> x"
  shows "Max {d \<in> doubles. d \<le> x} \<in> doubles" and "Max {d \<in> doubles. d \<le> x} \<le> x"
    and "y \<in> doubles \<Longrightarrow> y \<le> x \<Longrightarrow> y \<le> Max {d \<in> doubles. d \<le> x}"
proof -
  let ?S = "{d \<in> doubles. d \<le> x}"
  have f: "finite ?S" using finite_doubles by simp
  have n: "?S \<noteq> {}" using assms doubles_uminus [OF max_double_in] by auto
  from Max_in [OF f n] show "Max ?S \<in> doubles" "Max ?S \<le> x" by auto
  show "y \<in> doubles \<Longrightarrow> y \<le> x \<Longrightarrow> y \<le> Max ?S" using f by (intro Max_ge) auto
qed

lemma Min_above:
  assumes "x \<le> max_double"
  shows "Min {d \<in> doubles. x \<le> d} \<in> doubles" and "x \<le> Min {d \<in> doubles. x \<le> d}"
    and "y \<in> doubles \<Longrightarrow> x \<le> y \<Longrightarrow> Min {d \<in> doubles. x \<le> d} \<le> y"
proof -
  let ?S = "{d \<in> doubles. x \<le> d}"
  have f: "finite ?S" using finite_doubles by simp
  have n: "?S \<noteq> {}" using assms max_double_in by auto
  from Min_in [OF f n] show "Min ?S \<in> doubles" "x \<le> Min ?S" by auto
  show "y \<in> doubles \<Longrightarrow> x \<le> y \<Longrightarrow> Min ?S \<le> y" using f by (intro Min_le) auto
qed



lemma round_double_double:
  assumes "x \<in> doubles"
  shows "round_double x = Fin x"
proof -
  note t = top_ulp_pos
  note b = doubles_le_max [OF assms] doubles_ge_min [OF assms]
  have l: "Max {d \<in> doubles. d \<le> x} = x"
    using Max_below(2) [OF b(2)] Max_below(3) [OF b(2) assms] by auto
  have u: "Min {d \<in> doubles. x \<le> d} = x"
    using Min_above(2) [OF b(1)] Min_above(3) [OF b(1) assms] by auto
  from b t show ?thesis
    by (auto simp: round_double_def Let_def l u)
qed

subsection \<open>The JSON text of the tags\<close>

lemma hex_value_hex_digit: "k < 16 \<Longrightarrow> hex_value (hex_digit k) = Some k"
  by (auto simp: hex_value_def hex_digit_def Let_def)

lemma unicode_escape_control:
  assumes "of_char c < (32::nat)"
  shows "unicode_escape (CHR ''0'') (CHR ''0'') (hex_digit (of_char c div 16)) (hex_digit (of_char c mod 16))
           = Some c"
proof -
  let ?n = "of_char c :: nat"
  have "hex_value (hex_digit (?n div 16)) = Some (?n div 16)"
    "hex_value (hex_digit (?n mod 16)) = Some (?n mod 16)"
    using assms by (auto intro!: hex_value_hex_digit)
  moreover have "hex_value (CHR ''0'') = Some 0"
    by (simp add: hex_value_def)
  moreover have "?n div 16 < 8" using assms by simp
  moreover have "char_of (16 * (?n div 16) + ?n mod 16) = c"
    by simp
  ultimately show ?thesis
    by (simp add: unicode_escape_def)
qed

lemma parse_chars_escape: "parse_chars (concat (map escape s) @ dquote # rest) = Some (s, rest)"
proof (induction s)
  case Nil
  then show ?case by simp
next
  case (Cons c s)
  consider "c = dquote" | "c = bslash" | "c = CHR 0x08" | "c = CHR 0x0C" | "c = CHR 0x0A"
    | "c = CHR 0x0D" | "c = CHR 0x09"
    | "c \<noteq> dquote" "c \<noteq> bslash" "c \<noteq> CHR 0x08" "c \<noteq> CHR 0x0C" "c \<noteq> CHR 0x0A"
      "c \<noteq> CHR 0x0D" "c \<noteq> CHR 0x09" "of_char c < (32::nat)"
    | "c \<noteq> dquote" "c \<noteq> bslash" "\<not> of_char c < (32::nat)"
    by blast
  then show ?case
  proof cases
    case 8
    with Cons unicode_escape_control [OF 8(8)] show ?thesis
      by (simp add: escape_def)
  next
    case 9
    with Cons show ?thesis
      by (auto simp: escape_def)
  qed (use Cons in \<open>simp_all add: escape_def unescape_def\<close>)
qed

lemma not_ws [simp]: "\<not> is_ws dquote" "\<not> is_ws (CHR '','')" "\<not> is_ws (CHR '']'')" "\<not> is_ws (CHR ''['')"
  by (simp_all add: is_ws_def)

lemma quote_Cons: "quote t = dquote # concat (map escape t) @ [dquote]"
  by (simp add: quote_def)

lemma parse_items_quote:
  "parse_items (quote t @ rest) =
     (case dropWhile is_ws rest of
        [] \<Rightarrow> None
      | d # r'' \<Rightarrow>
          if d = CHR '','' then map_option ((#) t) (parse_items (dropWhile is_ws r''))
          else if d = CHR '']'' then (if list_all is_ws r'' then Some [t] else None)
          else None)"
  by (subst parse_items.simps) (simp add: quote_def parse_chars_escape)

lemma dropWhile_quote [simp]: "dropWhile is_ws (quote t @ rest) = quote t @ rest"
  by (simp add: quote_def)

lemma join_commas_Cons:
  "join_commas (x # xs) = x @ (if xs = [] then [] else CHR '','' # join_commas xs)"
  by (cases xs) simp_all

lemma parse_items_quotes:
  "ts \<noteq> [] \<Longrightarrow> parse_items (join_commas (map quote ts) @ [CHR '']'']) = Some ts"
proof (induction ts rule: list_nonempty_induct)
  case (single t)
  show ?case
    by (simp add: parse_items_quote)
next
  case (cons t ts)
  then obtain u us where ts: "ts = u # us" by (cases ts) auto
  have "dropWhile is_ws (join_commas (map quote ts) @ [CHR '']''])
          = join_commas (map quote ts) @ [CHR '']'']"
    by (simp add: ts join_commas_Cons del: join_commas.simps)
  with cons.IH show ?case
    by (simp add: ts parse_items_quote)
qed

lemma JSON_parse_stringify_tags: "JSON_parse_tags (JSON_stringify_tags ts) = Some ts"
proof (cases ts)
  case Nil
  then show ?thesis by (simp add: JSON_parse_tags_def JSON_stringify_tags_def)
next
  case (Cons t us)
  then have n: "ts \<noteq> []" by simp
  have "join_commas (map quote ts) @ [CHR '']'']
          = dquote # tl (join_commas (map quote ts) @ [CHR '']''])"
    by (simp add: Cons join_commas_Cons quote_def del: join_commas.simps)
  then obtain r where r: "join_commas (map quote ts) @ [CHR '']''] = dquote # r" ..
  with parse_items_quotes [OF n] show ?thesis
    by (simp add: JSON_parse_tags_def JSON_stringify_tags_def)
qed

subsection \<open>The example states, evaluated\<close>

lemmas example_defs = no_fault_def fault_at_def empty_db_def desk_def desk_db_def click_on_def
  sale_on_def item_def

lemmas tool_defs = store_affiliate_link_def run_def insert_affiliate_link_def new_link_row_def
  track_click_def insert_click_def update_clicks_def bump_clicks_def new_click_row_def
  track_conversion_def insert_conversion_def update_conversions_def bump_conversions_def
  new_conversion_row_def or_null_def count_clicks_def count_conversions_def

lemma small_doubles:
  "0 \<in> doubles" "10 \<in> doubles" "- 5 \<in> doubles" "45 / 2 \<in> doubles" "65 / 2 \<in> doubles"
  using int_in_doubles [of 0] int_in_doubles [of 10] int_in_doubles [of "- 5"]
    half_in_doubles [of 45] half_in_doubles [of 65]
  by simp_all

lemma desk_db_eq:
  "desk_db fk = \<lparr>affiliate_links = [new_link_row (no_fault ''aff_1'' ''t1'') desk],
      link_clicks = [], link_conversions = [], foreign_keys = fk\<rparr>"
  by (simp add: example_defs store_affiliate_link_def run_def insert_affiliate_link_def)

lemma store_desk:
  "store_affiliate_link (no_fault ''aff_1'' ''t1'') desk (empty_db fk) = (desk_db fk, Inr ''aff_1'')"
  by (simp add: example_defs store_affiliate_link_def run_def insert_affiliate_link_def)

lemma unpaid_db_eq:
  "unpaid_db = \<lparr>affiliate_links = [new_link_row (no_fault ''aff_1'' ''t1'') desk], link_clicks = [],
      link_conversions = [new_conversion_row (fault_at 1 ''v1'' ''t2'') (sale_on ''aff_1'' (Fin 10))],
      foreign_keys = True\<rparr>"
  unfolding unpaid_db_def desk_db_eq by (simp add: example_defs tool_defs)

lemma boundless_db_eq:
  "boundless_db =
     \<lparr>affiliate_links = [new_link_row (no_fault ''aff_1'' ''t1'') (item ''Crown'' ''luxury'' PosInf)],
      link_clicks = [], link_conversions = [], foreign_keys = True\<rparr>"
  by (simp add: boundless_db_def example_defs store_affiliate_link_def run_def
      insert_affiliate_link_def)

lemma references_ok_empty: "references_ok (empty_db fk)"
  by (simp add: references_ok_def empty_db_def)

subsection \<open>ORDER BY\<close>

lemma mset_place_desc: "mset (place_desc k x ys) = add_mset x (mset ys)"
  by (induction ys) auto

lemma mset_order_by_desc: "mset (order_by_desc k xs) = mset xs"
  unfolding order_by_desc_def by (induction xs) (auto simp: mset_place_desc)

lemma set_order_by_desc: "set (order_by_desc k xs) = set xs"
  using mset_order_by_desc [of k xs] by (metis set_mset_mset)





subsection \<open>Looking a link up by its id\<close>

lemma find_holds: "find P xs = Some x \<Longrightarrow> P x"
  by (induction xs) (auto split: if_splits)

lemma find_in: "find P xs = Some x \<Longrightarrow> x \<in> set xs"
  by (induction xs) (auto split: if_splits)

lemma find_exists: "\<exists>x\<in>set xs. P x \<Longrightarrow> \<exists>x. find P xs = Some x \<and> x \<in> set xs \<and> P x"
  by (induction xs) auto

lemma find_append_found: "find P xs = Some x \<Longrightarrow> find P (xs @ ys) = Some x"
  by (induction xs) (auto split: if_splits)

lemma find_append_new:
  "i \<notin> set (map row_id rs) \<Longrightarrow> row_id r = i \<Longrightarrow> find (\<lambda>r. row_id r = i) (rs @ [r]) = Some r"
  by (induction rs) auto

lemma bump_clicks_keeps [simp]:
  "row_id (bump_clicks j r) = row_id r" "tags (bump_clicks j r) = tags r"
  "revenue (bump_clicks j r) = revenue r"
  by (simp_all add: bump_clicks_def)

lemma bump_conversions_keeps [simp]:
  "row_id (bump_conversions x j r) = row_id r" "tags (bump_conversions x j r) = tags r"
  "clicks (bump_conversions x j r) = clicks r"
  by (simp_all add: bump_conversions_def)

lemma image_row_id_bump [simp]:
  "row_id ` bump_clicks j ` S = row_id ` S"
  "row_id ` bump_conversions x j ` S = row_id ` S"
  by (simp_all add: image_image)

lemma bump_clicks_absent:
  "i \<notin> set (map row_id rs) \<Longrightarrow> map (bump_clicks i) rs = rs"
  by (induction rs) (auto simp: bump_clicks_def)

lemma find_bump_clicks:
  "find (\<lambda>r. row_id r = i) (map (bump_clicks j) rs)
     = map_option (bump_clicks j) (find (\<lambda>r. row_id r = i) rs)"
  by (induction rs) auto

lemma find_bump_conversions:
  "find (\<lambda>r. row_id r = i) (map (bump_conversions x j) rs)
     = map_option (bump_conversions x j) (find (\<lambda>r. row_id r = i) rs)"
  by (induction rs) auto

lemma find_recount:
  "find (\<lambda>r. row_id r = i) (map (\<lambda>r. r\<lparr>clicks := f r, conversions := g r\<rparr>) rs)
     = map_option (\<lambda>r. r\<lparr>clicks := f r, conversions := g r\<rparr>) (find (\<lambda>r. row_id r = i) rs)"
  by (induction rs) auto

subsection \<open>What a call does to the tables\<close>

lemma store_ok:
  assumes "store_affiliate_link e a d = (d1, Inr i)"
  shows "i = gen_id e" and "i \<notin> set (map row_id (affiliate_links d))"
    and "d1 = d\<lparr>affiliate_links := affiliate_links d @ [new_link_row e a]\<rparr>"
  using assms
  by (auto simp: store_affiliate_link_def run_def insert_affiliate_link_def new_link_row_def
           split: if_splits sum.splits)

lemma store_cases:
  "fst (store_affiliate_link e a d) = d \<or>
   fst (store_affiliate_link e a d) = d\<lparr>affiliate_links := affiliate_links d @ [new_link_row e a]\<rparr>
     \<and> gen_id e \<notin> set (map row_id (affiliate_links d))"
  by (auto simp: store_affiliate_link_def run_def insert_affiliate_link_def new_link_row_def)

lemma track_click_cases:
  "affiliate_links (fst (track_click e a d)) = affiliate_links d \<or>
   affiliate_links (fst (track_click e a d)) = map (bump_clicks (k_linkId a)) (affiliate_links d)"
  by (auto simp: track_click_def run_def insert_click_def update_clicks_def split: sum.splits)

lemma track_conversion_cases:
  "affiliate_links (fst (track_conversion e a d)) = affiliate_links d \<or>
   affiliate_links (fst (track_conversion e a d))
     = map (bump_conversions (v_amount a) (v_linkId a)) (affiliate_links d)"
  by (auto simp: track_conversion_def run_def insert_conversion_def update_conversions_def
      split: sum.splits)

subsection \<open>Enforced foreign keys keep the references in order\<close>

lemma handle_keeps_references:
  assumes "foreign_keys d" and "references_ok d"
  shows "foreign_keys (handle e q d) \<and> references_ok (handle e q d)"
proof (cases q)
  case (Store_affiliate_link a)
  with store_cases [of e a d] assms show ?thesis
    by (auto simp: references_ok_def list_all_iff)
next
  case (Track_click a)
  with assms show ?thesis
    by (auto simp: track_click_def run_def insert_click_def update_clicks_def references_ok_def
        list_all_iff)
next
  case (Track_conversion a)
  with assms show ?thesis
    by (auto simp: track_conversion_def run_def insert_conversion_def update_conversions_def
        references_ok_def list_all_iff)
qed (use assms in auto)

lemma handle_all_keeps_references:
  "foreign_keys d \<Longrightarrow> references_ok d \<Longrightarrow>
   foreign_keys (handle_all cs d) \<and> references_ok (handle_all cs d)"
proof (induction cs arbitrary: d)
  case Nil
  then show ?case by simp
next
  case (Cons c cs)
  obtain e q where c: "c = (e, q)" by (cases c)
  from handle_keeps_references [OF Cons.prems, of e q] Cons.IH [of "handle e q d"] c
  show ?case by simp
qed

lemma count_clicks_absent:
  assumes "references_ok d" and "i \<notin> set (map row_id (affiliate_links d))"
  shows "count_clicks d i = 0"
  using assms unfolding references_ok_def count_clicks_def list_all_iff
  by (auto simp: filter_empty_conv)

subsection \<open>Reading the tags\<close>

lemma read_tags_written:
  "read_tags (map_option JSON_stringify_tags ts)
     = Inr (JArray (map JString (case ts of None \<Rightarrow> [] | Some xs \<Rightarrow> xs)))"
proof (cases ts)
  case None
  then show ?thesis by (simp add: read_tags_def)
next
  case (Some xs)
  have "JSON_stringify_tags xs \<noteq> []" by (simp add: JSON_stringify_tags_def)
  with Some show ?thesis by (simp add: read_tags_def JSON_parse_stringify_tags)
qed

lemma read_tags_None [simp]: "read_tags None = Inr (JArray [])"
  by (simp add: read_tags_def)

lemma read_tags_cases: "read_tags x = Inl SyntaxError \<or> (\<exists>t. read_tags x = Inr t)"
  by (auto simp: read_tags_def split: option.splits)

lemma to_link_readable:
  assumes "read_tags (tags r) \<noteq> Inl SyntaxError"
  shows "\<exists>l. to_link r = Inr l \<and> al_product l = product r \<and> al_program l = program r
           \<and> al_revenue l = revenue r \<and> al_id l = row_id r"
  using assms read_tags_cases [of "tags r"] by (auto simp: to_link_def)

subsection \<open>The clicks of a link along a sequence of calls\<close>

lemma clicks_step:
  assumes "find (\<lambda>r. row_id r = i) (affiliate_links d) = Some r"
  shows "\<exists>r'. find (\<lambda>r. row_id r = i) (affiliate_links (handle e q d)) = Some r'
      \<and> clicks r' = clicks r + int (clicks_tracked i [(e, q)] d)
      \<and> count_clicks (handle e q d) i
          = count_clicks d i + clicks_tracked i [(e, q)] d + clicks_torn i [(e, q)] d"
proof (cases q)
  case (Store_affiliate_link a)
  with store_cases [of e a d] assms(1) show ?thesis
    by (auto simp: count_clicks_def find_append_found)
next
  case (Track_click a)
  from find_holds [OF assms(1)] have i: "row_id r = i" .
  from Track_click assms show ?thesis
    by (auto simp: track_click_def run_def insert_click_def update_clicks_def count_clicks_def
        new_click_row_def find_bump_clicks i bump_clicks_def)
next
  case (Track_conversion a)
  with track_conversion_cases [of e a d] assms(1) show ?thesis
    by (auto simp: find_bump_conversions count_clicks_def track_conversion_def run_def
        insert_conversion_def update_conversions_def)
qed (use assms in auto)

lemma clicks_run:
  assumes "find (\<lambda>r. row_id r = i) (affiliate_links d) = Some r"
  shows "\<exists>r'. find (\<lambda>r. row_id r = i) (affiliate_links (handle_all cs d)) = Some r'
      \<and> clicks r' = clicks r + int (clicks_tracked i cs d)
      \<and> count_clicks (handle_all cs d) i
          = count_clicks d i + clicks_tracked i cs d + clicks_torn i cs d"
  using assms
proof (induction cs arbitrary: d r)
  case Nil
  then show ?case by simp
next
  case (Cons c cs)
  obtain e q where c: "c = (e, q)" by (cases c)
  from clicks_step [OF Cons.prems(1), of e q] obtain r1 where
    r1: "find (\<lambda>r. row_id r = i) (affiliate_links (handle e q d)) = Some r1"
      "clicks r1 = clicks r + int (clicks_tracked i [(e, q)] d)"
      "count_clicks (handle e q d) i
         = count_clicks d i + clicks_tracked i [(e, q)] d + clicks_torn i [(e, q)] d"
    by blast
  from Cons.IH [OF r1(1)] r1(2,3) c show ?case
    by auto
qed

subsection \<open>The revenue of a link along a sequence of calls\<close>




subsection \<open>LIMIT\<close>


subsection \<open>The export, parsed back\<close>

lemma js_int_exact: "\<bar>n\<bar> < 2 ^ 53 \<Longrightarrow> js_int n = Fin (of_int n)"
  by (simp add: js_int_def round_double_double int_in_doubles)

lemma parse_stringify_strings:
  "map (\<lambda>x. JSON_parse (JSON_stringify x)) (map JString xs) = map JString xs"
  by (induction xs) simp_all

lemma parse_stringify_number:
  "JSON_parse (JSON_stringify (JNumber x)) = real_field x"
  by (cases x) (simp_all add: real_field_def)

lemma parse_stringify_nullable:
  "JSON_parse (JSON_stringify (nullable x)) = nullable x"
  by (cases x) (simp_all add: nullable_def)

lemma to_link_written:
  assumes "tags r = map_option JSON_stringify_tags ts"
  shows "\<exists>l. to_link r = Inr l
          \<and> al_tags l = JArray (map JString (case ts of None \<Rightarrow> [] | Some xs \<Rightarrow> xs))"
  using read_tags_written [of ts] assms by (simp add: to_link_def)

lemma reproduces_link:
  assumes "to_link r = Inr l" and "tags r = map_option JSON_stringify_tags ts"
    and "\<bar>clicks r\<bar> < 2 ^ 53" and "\<bar>conversions r\<bar> < 2 ^ 53"
  shows "reproduces r (JSON_parse (JSON_stringify (link_object l)))"
proof -
  from to_link_written [OF assms(2)] assms(1)
  have t: "al_tags l = JArray (map JString (case ts of None \<Rightarrow> [] | Some xs \<Rightarrow> xs))"
    by simp
  from assms(1) have l: "al_id l = row_id r" "al_program l = program r" "al_product l = product r"
    "al_link l = link r" "al_commissionRate l = commission_rate r" "al_category l = category r"
    "al_expiry l = expiry r" "al_createdAt l = created_at r" "al_updatedAt l = updated_at r"
    "al_clicks l = clicks r" "al_conversions l = conversions r" "al_revenue l = revenue r"
    "al_notes l = row_notes r"
    by (auto simp: to_link_def split: sum.splits)
  have rev: "JSON_parse (JSON_stringify (case revenue r of None \<Rightarrow> JNull | Some x \<Rightarrow> JNumber x))
      = (case revenue r of None \<Rightarrow> JNull | Some x \<Rightarrow> real_field x)"
  proof (cases "revenue r")
    case None
    then show ?thesis by simp
  next
    case (Some x)
    then show ?thesis by (simp only: option.case parse_stringify_number)
  qed
  have n: "JSON_parse (JSON_stringify (JNumber (js_int (clicks r)))) = JNumber (Fin (of_int (clicks r)))"
    "JSON_parse (JSON_stringify (JNumber (js_int (conversions r))))
       = JNumber (Fin (of_int (conversions r)))"
    using assms(3,4) by (simp_all add: js_int_exact)
  have c: "JSON_parse (JSON_stringify (JNumber (commission_rate r))) = real_field (commission_rate r)"
    by (rule parse_stringify_number)
  have a: "JSON_parse (JSON_stringify (JArray (map JString xs))) = JArray (map JString xs)" for xs
    by (simp add: o_def)
  show ?thesis
    unfolding reproduces_def link_object_def l t
    by (intro exI [of _ ts] conjI assms(2))
       (simp add: rev n c a parse_stringify_nullable del: JSON_stringify.simps(2,4))
qed

lemma to_links_all:
  assumes "\<forall>r\<in>set rs. \<exists>l. to_link r = Inr l"
  shows "\<exists>ls. to_links rs = Inr ls \<and> list_all2 (\<lambda>r l. to_link r = Inr l) rs ls"
  using assms by (induction rs) auto

lemma to_links_rel:
  "to_links rs = Inr ls \<Longrightarrow> list_all2 (\<lambda>r l. to_link r = Inr l) rs ls"
  by (induction rs arbitrary: ls) (auto split: sum.splits)

lemma written_new_link_row: "\<exists>ts. tags (new_link_row e a) = map_option JSON_stringify_tags ts"
  by (auto simp: new_link_row_def)

lemma list_all2_left: "list_all2 P xs ys \<Longrightarrow> x \<in> set xs \<Longrightarrow> \<exists>y\<in>set ys. P x y"
  by (induction rule: list_all2_induct) auto

lemma list_all2_right: "list_all2 P xs ys \<Longrightarrow> y \<in> set ys \<Longrightarrow> \<exists>x\<in>set xs. P x y"
  by (induction rule: list_all2_induct) auto

lemma field_id:
  "js_field ''id'' (JSON_parse (JSON_stringify (link_object l))) = Some (JString (al_id l))"
  by (simp add: js_field_def link_object_def)

lemma field_tags:
  "js_field ''tags'' (JSON_parse (JSON_stringify (link_object l)))
     = Some (JSON_parse (JSON_stringify (al_tags l)))"
  by (simp add: js_field_def link_object_def)

lemma parsed_export_objects:
  assumes "parsed_export d = Inr v"
  shows "\<exists>ls. to_links (order_by_desc created_at (affiliate_links d)) = Inr ls
          \<and> v = JArray (map (\<lambda>l. JSON_parse (JSON_stringify (link_object l))) ls)"
  using assms
  by (auto simp: parsed_export_def export_links_json_def getAllAffiliateLinks_def o_def
      split: sum.splits)

subsection \<open>What the calls keep of the tags\<close>

lemma handle_keeps_untagged:
  assumes "\<exists>r\<in>set (affiliate_links d). row_id r = i"
    and "\<forall>r\<in>set (affiliate_links d). row_id r = i \<longrightarrow> tags r = None"
  shows "(\<exists>r\<in>set (affiliate_links (handle e q d)). row_id r = i)
       \<and> (\<forall>r\<in>set (affiliate_links (handle e q d)). row_id r = i \<longrightarrow> tags r = None)"
proof (cases q)
  case (Store_affiliate_link a)
  with store_cases [of e a d] assms show ?thesis
    by (auto simp: new_link_row_def)
next
  case (Track_click a)
  with track_click_cases [of e a d] assms show ?thesis
    by auto
next
  case (Track_conversion a)
  with track_conversion_cases [of e a d] assms show ?thesis
    by auto
qed (use assms in auto)

lemma handle_all_keeps_untagged:
  assumes "\<exists>r\<in>set (affiliate_links d). row_id r = i"
    and "\<forall>r\<in>set (affiliate_links d). row_id r = i \<longrightarrow> tags r = None"
  shows "(\<exists>r\<in>set (affiliate_links (handle_all cs d)). row_id r = i)
       \<and> (\<forall>r\<in>set (affiliate_links (handle_all cs d)). row_id r = i \<longrightarrow> tags r = None)"
  using assms
proof (induction cs arbitrary: d)
  case Nil
  then show ?case by simp
next
  case (Cons c cs)
  obtain e q where c: "c = (e, q)" by (cases c)
  from handle_keeps_untagged [OF Cons.prems, of e q]
  have "\<exists>r\<in>set (affiliate_links (handle e q d)). row_id r = i"
    "\<forall>r\<in>set (affiliate_links (handle e q d)). row_id r = i \<longrightarrow> tags r = None"
    by blast+
  from Cons.IH [OF this] c show ?case by simp
qed

lemma readable_new_link_row: "read_tags (tags (new_link_row e a)) \<noteq> Inl SyntaxError"
  using read_tags_written [of "s_tags a"] by (simp add: new_link_row_def)

lemma handle_keeps_readable:
  assumes "\<forall>r\<in>set (affiliate_links d). read_tags (tags r) \<noteq> Inl SyntaxError"
  shows "\<forall>r\<in>set (affiliate_links (handle e q d)). read_tags (tags r) \<noteq> Inl SyntaxError"
proof (cases q)
  case (Store_affiliate_link a)
  with store_cases [of e a d] assms readable_new_link_row [of e a] show ?thesis
    by auto
next
  case (Track_click a)
  with track_click_cases [of e a d] assms show ?thesis
    by auto
next
  case (Track_conversion a)
  with track_conversion_cases [of e a d] assms show ?thesis
    by auto
qed (use assms in auto)

lemma handle_all_keeps_readable:
  assumes "\<forall>r\<in>set (affiliate_links d). read_tags (tags r) \<noteq> Inl SyntaxError"
  shows "\<forall>r\<in>set (affiliate_links (handle_all cs d)). read_tags (tags r) \<noteq> Inl SyntaxError"
  using assms
proof (induction cs arbitrary: d)
  case Nil
  then show ?case by simp
next
  case (Cons c cs)
  obtain e q where c: "c = (e, q)" by (cases c)
  from Cons.IH [OF handle_keeps_readable [OF Cons.prems, of e q]] c show ?case by simp
qed

section \<open>The claims\<close>

subsection \<open>C1: the event row and the counter\<close>

text \<open>
  C1 as stated fails. The handler of \<^verbatim>\<open>track_click\<close> runs its INSERT and its UPDATE as two
  statements outside any transaction. Here the UPDATE fails: the call reports an error, one
  click row references \<open>aff_1\<close>, and the \<open>clicks\<close> column of \<open>aff_1\<close> is still 0, as it
  was before the call, when no click row referenced \<open>aff_1\<close>.
\<close>

theorem track_click_partial_failure:
  "snd (track_click (fault_at 1 ''c1'' ''t2'') (click_on ''aff_1'') (desk_db True)) = Inl StorageError
   \<and> count_clicks (fst (track_click (fault_at 1 ''c1'' ''t2'') (click_on ''aff_1'') (desk_db True))) ''aff_1'' = 1
   \<and> map clicks (affiliate_links
        (fst (track_click (fault_at 1 ''c1'' ''t2'') (click_on ''aff_1'') (desk_db True)))) = [0]
   \<and> count_clicks (desk_db True) ''aff_1'' = 0"
  by (simp add: desk_db_eq) (simp add: example_defs tool_defs)

text \<open>
  C1, amended. What \<^verbatim>\<open>track_click\<close> and \<^verbatim>\<open>track_conversion\<close> return and leave behind, in
  every state and for every failure of the datastore. When the INSERT fails (the datastore
  fails, the generated id is taken, or an enforced foreign key finds no link), the call
  reports that error and the database is as it was. When the INSERT goes through and the
  UPDATE fails, the call reports the error and the database has the new event row and the
  rows of \<open>affiliate_links\<close> as they were. Otherwise the call succeeds, the event row is
  there and the counters of the link named are updated.
\<close>

theorem track_statements_commit_separately:
  "track_click e a d =
     (if fault e = Some 0 then (d, Inl StorageError)
      else if gen_id e \<in> set (map click_id (link_clicks d))
      then (d, Inl (Constraint ''link_clicks.id''))
      else if foreign_keys d \<and> k_linkId a \<notin> set (map row_id (affiliate_links d))
      then (d, Inl ForeignKey)
      else if fault e = Some 1
      then (d\<lparr>link_clicks := link_clicks d @ [new_click_row e a]\<rparr>, Inl StorageError)
      else (d\<lparr>link_clicks := link_clicks d @ [new_click_row e a],
              affiliate_links := map (bump_clicks (k_linkId a)) (affiliate_links d)\<rparr>, Inr ()))
   \<and> track_conversion e b d =
     (if fault e = Some 0 then (d, Inl StorageError)
      else if gen_id e \<in> set (map conv_id (link_conversions d))
      then (d, Inl (Constraint ''link_conversions.id''))
      else if foreign_keys d \<and> v_linkId b \<notin> set (map row_id (affiliate_links d))
      then (d, Inl ForeignKey)
      else if fault e = Some 1
      then (d\<lparr>link_conversions := link_conversions d @ [new_conversion_row e b]\<rparr>, Inl StorageError)
      else (d\<lparr>link_conversions := link_conversions d @ [new_conversion_row e b],
              affiliate_links :=
                map (bump_conversions (v_amount b) (v_linkId b)) (affiliate_links d)\<rparr>, Inr ()))"
  by (simp add: track_click_def track_conversion_def run_def insert_click_def update_clicks_def
        insert_conversion_def update_conversions_def new_click_row_def new_conversion_row_def)

theorem track_statements_commit_separately_witness:
  "track_click (fault_at 1 ''c1'' ''t2'') (click_on ''aff_1'') (desk_db True)
     = ((desk_db True)\<lparr>link_clicks := [new_click_row (fault_at 1 ''c1'' ''t2'') (click_on ''aff_1'')]\<rparr>,
        Inl StorageError)
   \<and> track_conversion (fault_at 1 ''c1'' ''t2'') (sale_on ''aff_1'' (Fin 10)) (desk_db True)
     = ((desk_db True)\<lparr>link_conversions :=
          [new_conversion_row (fault_at 1 ''c1'' ''t2'') (sale_on ''aff_1'' (Fin 10))]\<rparr>,
        Inl StorageError)"
proof -
  have f: "fault (fault_at n ''c1'' ''t2'') = Some n" "gen_id (fault_at n ''c1'' ''t2'') = ''c1''" for n
    by (simp_all add: fault_at_def)
  have d: "link_clicks (desk_db True) = []" "link_conversions (desk_db True) = []"
    "k_linkId (click_on ''aff_1'') \<in> set (map row_id (affiliate_links (desk_db True)))"
    "v_linkId (sale_on ''aff_1'' (Fin 10)) \<in> set (map row_id (affiliate_links (desk_db True)))"
    by (simp_all add: desk_db_eq) (simp_all add: example_defs new_link_row_def)
  from track_statements_commit_separately
    [of "fault_at 1 ''c1'' ''t2''" "click_on ''aff_1''" "desk_db True" "sale_on ''aff_1'' (Fin 10)"] d
  show ?thesis by (simp add: f)
qed

subsection \<open>C2: where \<^verbatim>\<open>get_stats\<close> takes its numbers from\<close>

text \<open>
  C2 as stated fails for the revenue. In \<open>unpaid_db\<close> one conversion of 10 references
  \<open>aff_1\<close>; \<^verbatim>\<open>get_stats\<close> counts it, and reports the revenue 0 of the link's record.
\<close>

theorem get_stats_revenue_is_cached:
  "get_stats ''aff_1'' unpaid_db =
     Inr (Stats \<lparr>st_linkId = ''aff_1'', st_product = ''Desk'', st_program = ''Amazon'',
                 st_clicks = 0, st_conversions = 1, st_revenue = Some (Fin 0),
                 st_conversionRate = ''0%''\<rparr>)
   \<and> sum_amounts unpaid_db ''aff_1'' = Some (Fin 10)"
  unfolding unpaid_db_eq
  by (simp add: get_stats_def getAffiliateLink_def to_link_def sum_amounts_def conversionRate_def
      sql_add_def round_double_double small_doubles example_defs tool_defs)

text \<open>
  C2, amended. For an existing link whose tags can be read, \<^verbatim>\<open>get_stats\<close> returns as clicks
  and conversions the numbers of rows of \<open>link_clicks\<close> and \<open>link_conversions\<close> that
  reference the link, whatever the \<open>clicks\<close> and \<open>conversions\<close> columns of the link records
  hold; the revenue it returns is the \<open>revenue\<close> column of the link's record.
\<close>

theorem get_stats_sources:
  assumes "find (\<lambda>r. row_id r = i) (affiliate_links d) = Some r"
    and "read_tags (tags r) \<noteq> Inl SyntaxError"
  shows "(\<exists>s. get_stats i d = Inr (Stats s)
           \<and> st_clicks s = length (filter (\<lambda>c. click_link_id c = i) (link_clicks d))
           \<and> st_conversions s = length (filter (\<lambda>c. conv_link_id c = i) (link_conversions d))
           \<and> st_revenue s = revenue r)
    \<and> get_stats i (d\<lparr>affiliate_links :=
             map (\<lambda>r. r\<lparr>clicks := f r, conversions := g r\<rparr>) (affiliate_links d)\<rparr>) = get_stats i d"
proof -
  from to_link_readable [OF assms(2)] obtain l where
    l: "to_link r = Inr l" "al_revenue l = revenue r" by blast
  have t: "to_link (r\<lparr>clicks := f r, conversions := g r\<rparr>)
             = map_sum id (\<lambda>l. l\<lparr>al_clicks := f r, al_conversions := g r\<rparr>) (to_link r)"
    by (simp add: to_link_def split: sum.splits)
  from assms(1) l t show ?thesis
    by (simp add: get_stats_def getAffiliateLink_def count_clicks_def
        count_conversions_def find_recount Let_def)
qed

theorem get_stats_sources_witness:
  "(\<exists>s. get_stats ''aff_1'' unpaid_db = Inr (Stats s) \<and> st_clicks s = 0 \<and> st_conversions s = 1
        \<and> st_revenue s = Some (Fin 0))
   \<and> get_stats ''aff_1'' (unpaid_db\<lparr>affiliate_links :=
        map (\<lambda>r. r\<lparr>clicks := 7, conversions := 9\<rparr>) (affiliate_links unpaid_db)\<rparr>)
      = get_stats ''aff_1'' unpaid_db"
proof -
  let ?r = "new_link_row (no_fault ''aff_1'' ''t1'') desk"
  have a: "find (\<lambda>r. row_id r = ''aff_1'') (affiliate_links unpaid_db) = Some ?r"
    unfolding unpaid_db_eq by (simp add: example_defs new_link_row_def)
  have t: "read_tags (tags ?r) \<noteq> Inl SyntaxError"
    by (simp add: new_link_row_def desk_def)
  have b: "link_clicks unpaid_db = []"
    "link_conversions unpaid_db = [new_conversion_row (fault_at 1 ''v1'' ''t2'') (sale_on ''aff_1'' (Fin 10))]"
    "revenue ?r = Some (Fin 0)"
    unfolding unpaid_db_eq by (simp_all add: new_link_row_def)
  from get_stats_sources [OF a t, where f = "\<lambda>r. 7" and g = "\<lambda>r. 9"] b show ?thesis
    by (simp add: example_defs tool_defs)
qed

subsection \<open>C3: the revenue of a link\<close>




subsection \<open>C4: the clicks counter and the click rows\<close>

text \<open>
  C4 as stated fails. A \<^verbatim>\<open>track_click\<close> for \<open>aff_1\<close> whose UPDATE fails is not a successful
  call, and leaves its click row behind: after no successful call the \<open>clicks\<close> column is 0
  and one row of \<open>link_clicks\<close> references the link.
\<close>

theorem torn_click_is_counted:
  "clicks_tracked ''aff_1'' [(fault_at 1 ''c1'' ''t2'', Track_click (click_on ''aff_1''))] (desk_db True) = 0
   \<and> map clicks (affiliate_links
        (handle_all [(fault_at 1 ''c1'' ''t2'', Track_click (click_on ''aff_1''))] (desk_db True))) = [0]
   \<and> count_clicks
        (handle_all [(fault_at 1 ''c1'' ''t2'', Track_click (click_on ''aff_1''))] (desk_db True))
        ''aff_1'' = 1"
  by (simp add: desk_db_eq) (simp add: example_defs tool_defs)

text \<open>
  C4, amended. A link is created in a state where no click row has its id, and any sequence
  of calls follows, for this link and for others, succeeding or failing. Then the \<open>clicks\<close>
  column of the link is the number of the \<^verbatim>\<open>track_click\<close> calls for its id that succeeded;
  the number of rows of \<open>link_clicks\<close> that reference it is that number plus the number of
  the \<^verbatim>\<open>track_click\<close> calls for its id that failed and left their row behind. The two
  agree when there was no such call.
\<close>

theorem clicks_counter_counts_successes:
  assumes "store_affiliate_link e0 a0 d0 = (d1, Inr i)"
    and "count_clicks d0 i = 0"
  shows "\<exists>r. find (\<lambda>r. row_id r = i) (affiliate_links (handle_all cs d1)) = Some r
          \<and> clicks r = int (clicks_tracked i cs d1)
          \<and> count_clicks (handle_all cs d1) i = clicks_tracked i cs d1 + clicks_torn i cs d1"
proof -
  note s = store_ok [OF assms(1)]
  have f: "find (\<lambda>r. row_id r = i) (affiliate_links d1) = Some (new_link_row e0 a0)"
    using s by (simp add: find_append_new new_link_row_def)
  have c: "count_clicks d1 i = 0" "clicks (new_link_row e0 a0) = 0"
    using s(3) assms(2) by (simp_all add: count_clicks_def new_link_row_def)
  from clicks_run [OF f, of cs] c show ?thesis by simp
qed

theorem clicks_counter_counts_successes_witness:
  "\<exists>r. find (\<lambda>r. row_id r = ''aff_1'')
         (affiliate_links (handle_all
            [(no_fault ''c1'' ''t2'', Track_click (click_on ''aff_1'')),
             (no_fault ''aff_2'' ''t3'', Store_affiliate_link (item ''Mouse'' ''tech'' (Fin 3))),
             (no_fault ''c2'' ''t4'', Track_click (click_on ''aff_2'')),
             (fault_at 1 ''c4'' ''t6'', Track_click (click_on ''aff_1'')),
             (no_fault ''c5'' ''t8'', Track_click (click_on ''aff_1''))]
            (desk_db True))) = Some r
      \<and> clicks r = 2
      \<and> count_clicks (handle_all
            [(no_fault ''c1'' ''t2'', Track_click (click_on ''aff_1'')),
             (no_fault ''aff_2'' ''t3'', Store_affiliate_link (item ''Mouse'' ''tech'' (Fin 3))),
             (no_fault ''c2'' ''t4'', Track_click (click_on ''aff_2'')),
             (fault_at 1 ''c4'' ''t6'', Track_click (click_on ''aff_1'')),
             (no_fault ''c5'' ''t8'', Track_click (click_on ''aff_1''))]
            (desk_db True)) ''aff_1'' = 3"
proof -
  let ?cs = "[(no_fault ''c1'' ''t2'', Track_click (click_on ''aff_1'')),
             (no_fault ''aff_2'' ''t3'', Store_affiliate_link (item ''Mouse'' ''tech'' (Fin 3))),
             (no_fault ''c2'' ''t4'', Track_click (click_on ''aff_2'')),
             (fault_at 1 ''c4'' ''t6'', Track_click (click_on ''aff_1'')),
             (no_fault ''c5'' ''t8'', Track_click (click_on ''aff_1''))]"
  have a: "count_clicks (empty_db True) ''aff_1'' = 0"
    by (simp add: count_clicks_def empty_db_def)
  have n: "clicks_tracked ''aff_1'' ?cs (desk_db True) = 2"
    by (simp add: desk_db_eq) (simp add: example_defs tool_defs)
  have m: "clicks_torn ''aff_1'' ?cs (desk_db True) = 1"
    by (simp add: desk_db_eq) (simp add: example_defs tool_defs)
  from clicks_counter_counts_successes [OF store_desk a, of ?cs] show ?thesis
    unfolding n m by simp
qed

subsection \<open>C5: a second link with the same URL\<close>

text \<open>
  C5. Storing a link whose URL is the URL of a stored link fails and leaves the database as
  it was, the first link's row included; unless the datastore itself fails, the error is
  \<open>DuplicateLink\<close>.
\<close>

theorem duplicate_link_rejected:
  assumes "s_link a \<in> set (map link (affiliate_links d))"
  shows "fst (store_affiliate_link e a d) = d \<and> isl (snd (store_affiliate_link e a d))
     \<and> (fault e = None \<longrightarrow> store_affiliate_link e a d = (d, Inl DuplicateLink))"
  using assms
  by (auto simp: store_affiliate_link_def run_def insert_affiliate_link_def new_link_row_def
      DuplicateLink_def)

theorem duplicate_link_rejected_witness:
  "store_affiliate_link (no_fault ''aff_2'' ''t2'') desk (desk_db True) = (desk_db True, Inl DuplicateLink)"
proof -
  have a: "s_link desk \<in> set (map link (affiliate_links (desk_db True)))"
    by (simp add: desk_db_eq) (simp add: example_defs tool_defs)
  from duplicate_link_rejected [OF a, of "no_fault ''aff_2'' ''t2''"] show ?thesis
    by (simp add: no_fault_def)
qed

subsection \<open>C6: the json export\<close>

text \<open>
  C6 as stated fails. A link stored with the commission rate \<^verbatim>\<open>Infinity\<close> keeps it in its
  row; in the export, parsed back, its \<open>commissionRate\<close> is \<^verbatim>\<open>null\<close>.
\<close>

theorem export_of_infinite_rate:
  "map commission_rate (affiliate_links boundless_db) = [PosInf]
   \<and> parsed_export boundless_db =
       Inr (JArray [JObject
         [(''id'', JString ''aff_1''),
          (''program'', JString ''Amazon''),
          (''product'', JString ''Crown''),
          (''link'', JString ''https://a.example/Crown''),
          (''commissionRate'', JNull),
          (''category'', JString ''luxury''),
          (''tags'', JArray [JString ''wfh'']),
          (''expiry'', JNull),
          (''createdAt'', JString ''t1''),
          (''updatedAt'', JString ''t1''),
          (''clicks'', JNumber (Fin 0)),
          (''conversions'', JNumber (Fin 0)),
          (''revenue'', JNumber (Fin 0)),
          (''notes'', JNull)]])"
proof -
  have t: "read_tags (Some (JSON_stringify_tags [''wfh''])) = Inr (JArray [JString ''wfh''])"
    using read_tags_written [of "Some [''wfh'']"] by simp
  have z: "js_int 0 = Fin 0"
    using js_int_exact [of 0] by simp
  show ?thesis
    unfolding boundless_db_eq
    by (simp add: parsed_export_def export_links_json_def getAllAffiliateLinks_def
        order_by_desc_def to_link_def new_link_row_def item_def no_fault_def or_null_def t z
        link_object_def nullable_def)
qed

text \<open>
  C6, amended. In a state where every \<open>tags\<close> column is NULL or the text that
  \<^verbatim>\<open>store_affiliate_link\<close> writes for an array of strings, and every counter is below
  \<open>2 ^ 53\<close> in absolute value, the export succeeds and, parsed back, is an array whose
  objects are, one for one, the rows of \<open>affiliate_links\<close>: each object has every column
  of its row as stored, the tags as the array of strings (empty for NULL), except that an
  infinite commission rate or revenue is \<^verbatim>\<open>null\<close>.
\<close>

theorem export_reproduces_rows:
  assumes "\<forall>r\<in>set (affiliate_links d). \<exists>ts. tags r = map_option JSON_stringify_tags ts"
    and "\<forall>r\<in>set (affiliate_links d). \<bar>clicks r\<bar> < 2 ^ 53 \<and> \<bar>conversions r\<bar> < 2 ^ 53"
  shows "\<exists>rs objs. parsed_export d = Inr (JArray objs)
           \<and> mset rs = mset (affiliate_links d) \<and> list_all2 reproduces rs objs"
proof -
  let ?rs = "order_by_desc created_at (affiliate_links d)"
  have s: "set ?rs = set (affiliate_links d)" by (rule set_order_by_desc)
  have "\<forall>r\<in>set ?rs. \<exists>l. to_link r = Inr l"
    using assms(1) to_link_written unfolding s by blast
  from to_links_all [OF this] obtain ls where
    ls: "to_links ?rs = Inr ls" "list_all2 (\<lambda>r l. to_link r = Inr l) ?rs ls" by blast
  let ?objs = "map (\<lambda>l. JSON_parse (JSON_stringify (link_object l))) ls"
  have "list_all2 (\<lambda>r l. reproduces r (JSON_parse (JSON_stringify (link_object l)))) ?rs ls"
  proof (rule list.rel_mono_strong [OF ls(2)])
    fix r l
    assume r: "r \<in> set ?rs" and l: "to_link r = Inr l"
    from r assms(1) obtain ts where ts: "tags r = map_option JSON_stringify_tags ts"
      unfolding s by blast
    from r assms(2) have "\<bar>clicks r\<bar> < 2 ^ 53" "\<bar>conversions r\<bar> < 2 ^ 53"
      unfolding s by blast+
    with reproduces_link [OF l ts]
    show "reproduces r (JSON_parse (JSON_stringify (link_object l)))" by simp
  qed
  then have "list_all2 reproduces ?rs ?objs"
    by (simp add: list_all2_map2)
  moreover have "parsed_export d = Inr (JArray ?objs)"
    by (simp add: parsed_export_def export_links_json_def getAllAffiliateLinks_def ls(1) o_def)
  ultimately show ?thesis
    using mset_order_by_desc [of created_at "affiliate_links d"] by blast
qed

theorem export_reproduces_rows_witness:
  "\<exists>rs objs. parsed_export shop_db = Inr (JArray objs)
      \<and> mset rs = mset (affiliate_links shop_db) \<and> list_all2 reproduces rs objs \<and> length objs = 4"
proof -
  have a: "\<forall>r\<in>set (affiliate_links shop_db). \<exists>ts. tags r = map_option JSON_stringify_tags ts"
    by (simp add: shop_db_def written_new_link_row)
  have b: "\<forall>r\<in>set (affiliate_links shop_db). \<bar>clicks r\<bar> < 2 ^ 53 \<and> \<bar>conversions r\<bar> < 2 ^ 53"
    by (simp add: shop_db_def new_link_row_def)
  from export_reproduces_rows [OF a b] obtain rs objs where
    r: "parsed_export shop_db = Inr (JArray objs)" "mset rs = mset (affiliate_links shop_db)"
      "list_all2 reproduces rs objs"
    by blast
  from r(2) have "size (mset rs) = size (mset (affiliate_links shop_db))" by simp
  then have "length rs = 4" by (simp add: shop_db_def)
  with r(3) have "length objs = 4" by (simp add: list_all2_lengthD)
  with r show ?thesis by blast
qed

subsection \<open>C7: \<^verbatim>\<open>get_affiliate_links\<close>\<close>




subsection \<open>C8: the conversion rate of a link without clicks\<close>

text \<open>
  C8. For an existing link that no row of \<open>link_clicks\<close> references, \<^verbatim>\<open>get_stats\<close> returns
  its payload, with 0 clicks and the conversion rate \<^verbatim>\<open>0%\<close>.
\<close>

theorem conversionRate_without_clicks:
  assumes "getAffiliateLink d i = Inr (Some l)"
    and "length (filter (\<lambda>c. click_link_id c = i) (link_clicks d)) = 0"
  shows "\<exists>s. get_stats i d = Inr (Stats s) \<and> st_clicks s = 0 \<and> st_conversionRate s = ''0%''"
  using assms by (simp add: get_stats_def count_clicks_def conversionRate_def Let_def)

theorem conversionRate_without_clicks_witness:
  "\<exists>s. get_stats ''aff_1'' unpaid_db = Inr (Stats s) \<and> st_clicks s = 0 \<and> st_conversionRate s = ''0%''"
proof -
  have a: "\<exists>l. getAffiliateLink unpaid_db ''aff_1'' = Inr (Some l)"
    unfolding unpaid_db_eq
    by (simp add: getAffiliateLink_def to_link_def example_defs new_link_row_def)
  have b: "length (filter (\<lambda>c. click_link_id c = ''aff_1'') (link_clicks unpaid_db)) = 0"
    unfolding unpaid_db_eq by simp
  from a obtain l where "getAffiliateLink unpaid_db ''aff_1'' = Inr (Some l)" ..
  from conversionRate_without_clicks [OF this b] show ?thesis .
qed

subsection \<open>C9: a click for an id no link has\<close>

text \<open>
  C9 as stated fails where the foreign key of \<open>link_clicks\<close> is enforced: the INSERT is
  rejected, no row is inserted and the call reports the error.
\<close>

theorem track_click_unknown_link_rejected:
  "track_click (no_fault ''c1'' ''t2'') (click_on ''nope'') (desk_db True) = (desk_db True, Inl ForeignKey)
   \<and> ''nope'' \<notin> set (map row_id (affiliate_links (desk_db True)))"
  by (simp add: desk_db_eq) (simp add: example_defs tool_defs)

text \<open>
  C9, amended. For an id that no link has: where the foreign key is not enforced,
  \<^verbatim>\<open>track_click\<close> inserts the click row, succeeds and changes no row of \<open>affiliate_links\<close>
  (unless the datastore fails or the generated id is taken); where it is enforced, the call
  fails and leaves the database as it was, with the foreign key error unless the datastore
  fails or the generated id is taken.
\<close>

theorem track_click_unknown_link:
  assumes "k_linkId a \<notin> set (map row_id (affiliate_links d))"
  shows "if foreign_keys d
         then fst (track_click e a d) = d \<and> isl (snd (track_click e a d)) \<and>
              (fault e = None \<and> gen_id e \<notin> set (map click_id (link_clicks d)) \<longrightarrow>
               snd (track_click e a d) = Inl ForeignKey)
         else (fault e = None \<and> gen_id e \<notin> set (map click_id (link_clicks d)) \<longrightarrow>
               track_click e a d = (d\<lparr>link_clicks := link_clicks d @ [new_click_row e a]\<rparr>, Inr ()))"
  using assms bump_clicks_absent [OF assms]
  by (auto simp: track_click_def run_def insert_click_def update_clicks_def new_click_row_def)

theorem track_click_unknown_link_witness:
  "track_click (no_fault ''c1'' ''t2'') (click_on ''nope'') (desk_db False)
     = ((desk_db False)\<lparr>link_clicks := [new_click_row (no_fault ''c1'' ''t2'') (click_on ''nope'')]\<rparr>, Inr ())
   \<and> fst (track_click (no_fault ''c1'' ''t2'') (click_on ''nope'') (desk_db True)) = desk_db True
   \<and> snd (track_click (no_fault ''c1'' ''t2'') (click_on ''nope'') (desk_db True)) = Inl ForeignKey"
proof -
  have a: "k_linkId (click_on ''nope'') \<notin> set (map row_id (affiliate_links (desk_db fk)))" for fk
    by (simp add: desk_db_eq) (simp add: example_defs tool_defs)
  have b: "fault (no_fault ''c1'' ''t2'') = None" "gen_id (no_fault ''c1'' ''t2'') = ''c1''"
    "link_clicks (desk_db False) = []" "link_clicks (desk_db True) = []"
    "foreign_keys (desk_db True)" "\<not> foreign_keys (desk_db False)"
    by (simp_all add: desk_db_eq no_fault_def)
  from track_click_unknown_link [OF a [of False], of "no_fault ''c1'' ''t2''"]
    track_click_unknown_link [OF a [of True], of "no_fault ''c1'' ''t2''"] b
  show ?thesis by simp
qed

subsection \<open>C10: a link stored without tags\<close>

text \<open>
  C10. A link is stored with the tags omitted. After any sequence of calls,
  \<^verbatim>\<open>getAffiliateLink\<close> (the lookup of \<^verbatim>\<open>get_stats\<close>) returns it with the empty array as tags;
  the json export, parsed back, has an object with its id, and every object with its id has
  the empty array as \<open>tags\<close>; and the export succeeds when the tags of the links stored
  before can be read.
\<close>

theorem omitted_tags_read_as_empty:
  assumes "store_affiliate_link e a d = (d1, Inr i)" and "s_tags a = None"
  shows "(\<exists>l. getAffiliateLink (handle_all cs d1) i = Inr (Some l) \<and> al_tags l = JArray [])
       \<and> (\<forall>objs. parsed_export (handle_all cs d1) = Inr (JArray objs) \<longrightarrow>
            (\<exists>obj\<in>set objs. js_field ''id'' obj = Some (JString i))
          \<and> (\<forall>obj\<in>set objs. js_field ''id'' obj = Some (JString i) \<longrightarrow>
                js_field ''tags'' obj = Some (JArray [])))
       \<and> ((\<forall>r\<in>set (affiliate_links d). read_tags (tags r) \<noteq> Inl SyntaxError) \<longrightarrow>
            (\<exists>objs. parsed_export (handle_all cs d1) = Inr (JArray objs)))"
proof -
  let ?d = "handle_all cs d1"
  let ?rs = "order_by_desc created_at (affiliate_links ?d)"
  note s = store_ok [OF assms(1)]
  have "\<exists>r\<in>set (affiliate_links d1). row_id r = i"
    "\<forall>r\<in>set (affiliate_links d1). row_id r = i \<longrightarrow> tags r = None"
    using s assms(2) by (auto simp: new_link_row_def image_iff)
  from handle_all_keeps_untagged [OF this, of cs]
  have ex: "\<exists>r\<in>set (affiliate_links ?d). row_id r = i"
    and un: "\<forall>r\<in>set (affiliate_links ?d). row_id r = i \<longrightarrow> tags r = None"
    by blast+
  from find_exists [of "affiliate_links ?d" "\<lambda>r. row_id r = i"] ex obtain r where
    r: "find (\<lambda>r. row_id r = i) (affiliate_links ?d) = Some r" "r \<in> set (affiliate_links ?d)"
      "row_id r = i"
    by blast
  with un have "tags r = None" by blast
  with r(1) have A: "\<exists>l. getAffiliateLink ?d i = Inr (Some l) \<and> al_tags l = JArray []"
    by (simp add: getAffiliateLink_def to_link_def)
  have B: "(\<exists>obj\<in>set objs. js_field ''id'' obj = Some (JString i))
          \<and> (\<forall>obj\<in>set objs. js_field ''id'' obj = Some (JString i) \<longrightarrow>
                js_field ''tags'' obj = Some (JArray []))"
    if p: "parsed_export ?d = Inr (JArray objs)" for objs
  proof -
    from parsed_export_objects [OF p] obtain ls where
      ls: "to_links ?rs = Inr ls"
        "objs = map (\<lambda>l. JSON_parse (JSON_stringify (link_object l))) ls"
      by auto
    note rel = to_links_rel [OF ls(1)]
    have tagless: "al_tags l = JArray []" if "l \<in> set ls" "al_id l = i" for l
    proof -
      from list_all2_right [OF rel that(1)] obtain r' where
        r': "r' \<in> set ?rs" "to_link r' = Inr l" by blast
      from r'(2) have "al_id l = row_id r'"
        by (auto simp: to_link_def split: sum.splits)
      with that(2) r'(1) un have "tags r' = None"
        by (simp add: set_order_by_desc)
      with r'(2) show ?thesis by (auto simp: to_link_def)
    qed
    from r(2) have "r \<in> set ?rs" by (simp add: set_order_by_desc)
    from list_all2_left [OF rel this] obtain l where
      l: "l \<in> set ls" "to_link r = Inr l" by blast
    from l(2) r(3) have "al_id l = i"
      by (auto simp: to_link_def split: sum.splits)
    with l(1) have "\<exists>obj\<in>set objs. js_field ''id'' obj = Some (JString i)"
      unfolding ls(2) by (auto simp: field_id)
    moreover have "\<forall>obj\<in>set objs. js_field ''id'' obj = Some (JString i) \<longrightarrow>
                js_field ''tags'' obj = Some (JArray [])"
      unfolding ls(2) using tagless by (auto simp: field_id field_tags)
    ultimately show ?thesis by blast
  qed
  have C: "\<exists>objs. parsed_export ?d = Inr (JArray objs)"
    if rd: "\<forall>r\<in>set (affiliate_links d). read_tags (tags r) \<noteq> Inl SyntaxError"
  proof -
    from rd s(3) readable_new_link_row [of e a]
    have "\<forall>r\<in>set (affiliate_links d1). read_tags (tags r) \<noteq> Inl SyntaxError"
      by auto
    from handle_all_keeps_readable [OF this, of cs]
    have "\<forall>r\<in>set ?rs. \<exists>l. to_link r = Inr l"
      using to_link_readable by (simp add: set_order_by_desc) blast
    from to_links_all [OF this] obtain ls where "to_links ?rs = Inr ls" by blast
    then show ?thesis
      by (simp add: parsed_export_def export_links_json_def getAllAffiliateLinks_def)
  qed
  from A B C show ?thesis by blast
qed

theorem omitted_tags_read_as_empty_witness:
  "(\<exists>l. getAffiliateLink
          (handle_all
             [(no_fault ''c1'' ''t2'', Track_click (click_on ''aff_1'')),
              (no_fault ''aff_2'' ''t3'', Store_affiliate_link (item ''Mouse'' ''tech'' (Fin 3))),
              (no_fault ''v1'' ''t4'', Track_conversion (sale_on ''aff_1'' (Fin 10)))]
             (desk_db True)) ''aff_1'' = Inr (Some l) \<and> al_tags l = JArray [])
   \<and> (\<exists>objs obj. parsed_export
          (handle_all
             [(no_fault ''c1'' ''t2'', Track_click (click_on ''aff_1'')),
              (no_fault ''aff_2'' ''t3'', Store_affiliate_link (item ''Mouse'' ''tech'' (Fin 3))),
              (no_fault ''v1'' ''t4'', Track_conversion (sale_on ''aff_1'' (Fin 10)))]
             (desk_db True)) = Inr (JArray objs)
        \<and> obj \<in> set objs \<and> js_field ''id'' obj = Some (JString ''aff_1'')
        \<and> js_field ''tags'' obj = Some (JArray []))"
proof -
  have t: "s_tags desk = None" by (simp add: desk_def)
  have r: "\<forall>r\<in>set (affiliate_links (empty_db True)). read_tags (tags r) \<noteq> Inl SyntaxError"
    by (simp add: empty_db_def)
  from omitted_tags_read_as_empty [OF store_desk t] r show ?thesis
    by blast
qed

end
